theory Spec2Isabelle
  imports
    Main
    "HOL-Library.Word"
    "HOL-Library.Sublist"
    "HOL-Library.List_Lexorder"
    "HOL-Library.AList"
    "HOL-Library.Multiset"
begin

section \<open>Values shared by the engine, the miner and the transport\<close>

text \<open>
  A Go byte slice is either \<open>nil\<close> or a sequence of bytes. \<open>reflect.DeepEqual\<close> tells a
  \<open>nil\<close> slice from an empty one and otherwise compares contents, so it is HOL equality
  on \<open>bytes\<close>: \<open>None\<close> is the \<open>nil\<close> slice.
\<close>

type_synonym bytes = "8 word list option"

text \<open>
  Modelled from the spec: the declaration of \<open>Transaction\<close> is not among the sources.
  The data model gives a transaction a sender and a receiver key, a timestamp, a payload
  hash, a payload length, a nonce and a signature; \<open>DiffTransactionSlices\<close> and the engine
  read the field \<open>Signature\<close> only.
\<close>

record Transaction =
  From :: bytes
  To :: bytes
  TxTimestamp :: "32 word"
  PayloadHash :: bytes
  PayloadLength :: "32 word"
  TxNonce :: "32 word"
  Signature :: bytes

type_synonym TransactionSlice = "Transaction list"

section \<open>DiffTransactionSlices\<close>

text \<open>
  The inner loop \<open>for j := lastj; j < len(b); j++\<close>: the first index from \<open>j\<close> on whose
  transaction carries the signature \<open>s\<close>, or \<open>None\<close> when the loop runs off the end of
  \<open>b\<close> with \<open>found\<close> still false.
\<close>

function scan_from :: "bytes \<Rightarrow> TransactionSlice \<Rightarrow> nat \<Rightarrow> nat option" where
  "scan_from s b j =
     (if j < length b
      then (if Signature (b ! j) = s then Some j else scan_from s b (j + 1))
      else None)"
  by pat_completeness auto
termination
  by (relation "measure (\<lambda>(s, b, j). length b - j)") auto

declare scan_from.simps [simp del]

text \<open>
  The outer loop \<open>for _, t := range a\<close> with its two variables, the cursor \<open>lastj\<close> and
  the result \<open>diff\<close>. On a match the source assigns \<open>lastj = j\<close>.
\<close>

fun diff_loop :: "TransactionSlice \<Rightarrow> TransactionSlice \<Rightarrow> nat \<Rightarrow> TransactionSlice
    \<Rightarrow> nat \<times> TransactionSlice" where
  "diff_loop [] b lastj diff = (lastj, diff)"
| "diff_loop (t # ts) b lastj diff =
     (case scan_from (Signature t) b lastj of
        Some j \<Rightarrow> diff_loop ts b j diff
      | None \<Rightarrow> diff_loop ts b lastj (diff @ [t]))"

definition DiffTransactionSlices :: "TransactionSlice \<Rightarrow> TransactionSlice \<Rightarrow> TransactionSlice" where
  "DiffTransactionSlices a b = snd (diff_loop a b 0 [])"

text \<open>
  The scan as the specification words it, for comparison with the source: the same two
  loops, but a match advances the cursor past the matched position.
\<close>

fun spec_diff_loop :: "TransactionSlice \<Rightarrow> TransactionSlice \<Rightarrow> nat \<Rightarrow> TransactionSlice
    \<Rightarrow> nat \<times> TransactionSlice" where
  "spec_diff_loop [] b cursor diff = (cursor, diff)"
| "spec_diff_loop (t # ts) b cursor diff =
     (case scan_from (Signature t) b cursor of
        Some j \<Rightarrow> spec_diff_loop ts b (j + 1) diff
      | None \<Rightarrow> spec_diff_loop ts b cursor (diff @ [t]))"

definition SpecDiffTransactionSlices :: "TransactionSlice \<Rightarrow> TransactionSlice \<Rightarrow> TransactionSlice" where
  "SpecDiffTransactionSlices a b = snd (spec_diff_loop a b 0 [])"

text \<open>
  Ordering by signature: bytewise lexicographic comparison of the signatures, a \<open>nil\<close>
  signature counting as the empty one.
\<close>

definition sig_bytes :: "Transaction \<Rightarrow> 8 word list" where
  "sig_bytes t = (case Signature t of None \<Rightarrow> [] | Some bs \<Rightarrow> bs)"

definition sorted_by_signature :: "TransactionSlice \<Rightarrow> bool" where
  "sorted_by_signature a = sorted (map sig_bytes a)"

section \<open>Blocks and the collaborators of the engine\<close>

text \<open>
  Modelled from the spec: the declarations of \<open>BlockHeader\<close> and \<open>Block\<close> are not among
  the sources. The header carries the origin key, the previous-block hash, the Merkle
  root, a timestamp and a nonce (32 bits each, as the size constants of the network
  file count them). A block embeds a pointer to its header, which the transport tests
  against \<open>nil\<close> (\<open>None\<close> here), a signature and its transactions; the transaction slice
  is reached through a pointer in the source and is taken to be allocated.
\<close>

record BlockHeader =
  Origin :: bytes
  PrevBlock :: bytes
  MerkelRoot :: bytes
  Timestamp :: "32 word"
  Nonce :: "32 word"

record Block =
  BlockHeader :: "BlockHeader option"
  BlockSignature :: bytes
  TransactionSlice :: TransactionSlice

text \<open>
  The functions the engine and the miner call but the sources do not contain are taken
  as parameters: hashing a block, the two verifications (each with its proof-of-work
  prefix already applied), the Merkle root of a transaction sequence, the difficulty
  predicate \<open>CheckProofOfWork(BLOCK_POW, _)\<close>, signing with the node's key pair, and
  the two encoders.
\<close>

record Collaborators =
  Hash :: "Block \<Rightarrow> bytes"
  VerifyBlock :: "Block \<Rightarrow> bool"
  VerifyTransaction :: "Transaction \<Rightarrow> bool"
  MerkelRootOf :: "TransactionSlice \<Rightarrow> bytes"
  CheckProofOfWork :: "bytes \<Rightarrow> bool"
  Sign :: "Block \<Rightarrow> bytes"
  MarshalTransaction :: "Transaction \<Rightarrow> bytes"
  MarshalBlock :: "Block \<Rightarrow> bytes"

text \<open>
  Modelled from the spec: \<open>Block.GenerateMerkelRoot\<close> is missing; the Merkle root is a
  single hash summarising the block's transaction set.
\<close>

definition GenerateMerkelRoot :: "Collaborators \<Rightarrow> Block \<Rightarrow> bytes" where
  "GenerateMerkelRoot env b = MerkelRootOf env (TransactionSlice b)"

text \<open>
  Modelled from the spec: \<open>TransactionSlice.Exists\<close> is missing; a transaction is
  rejected when its signature already exists in the pending block.
\<close>

definition TransactionSlice_Exists :: "TransactionSlice \<Rightarrow> Transaction \<Rightarrow> bool" where
  "TransactionSlice_Exists txs tr = list_ex (\<lambda>t. Signature t = Signature tr) txs"

text \<open>
  Modelled from the spec: \<open>Block.AddTransaction\<close> is missing; an accepted transaction
  is appended to the pending block.
\<close>

definition AddTransaction :: "Transaction \<Rightarrow> Block \<Rightarrow> Block" where
  "AddTransaction tr b = b\<lparr>TransactionSlice := TransactionSlice b @ [tr]\<rparr>"

text \<open>
  Modelled from the spec: \<open>BlockSlice.Exists\<close> is missing; membership in the chain is
  by hash equality.
\<close>

definition BlockSlice_Exists :: "Collaborators \<Rightarrow> Block list \<Rightarrow> Block \<Rightarrow> bool" where
  "BlockSlice_Exists env bs b = list_ex (\<lambda>x. Hash env x = Hash env b) bs"

text \<open>
  Modelled from the spec: \<open>BlockSlice.PreviousBlock\<close> is missing; it returns the last
  element of the chain, or none when the chain is empty.
\<close>

definition PreviousBlock :: "Block list \<Rightarrow> Block option" where
  "PreviousBlock bs = (if bs = [] then None else Some (last bs))"

text \<open>
  Modelled from the spec: \<open>NewBlock\<close> is missing; a fresh pending block has the given
  previous-hash, an otherwise zero header, no signature and no transactions.
\<close>

definition NewBlock :: "bytes \<Rightarrow> Block" where
  "NewBlock previousBlock =
     \<lparr>BlockHeader = Some \<lparr>Origin = None, PrevBlock = previousBlock, MerkelRoot = None,
                           Timestamp = 0, Nonce = 0\<rparr>,
      BlockSignature = None, TransactionSlice = []\<rparr>"

text \<open>
  Modelled from the spec: \<open>Message\<close> and \<open>NewMessage\<close> are missing; a message is a kind
  and an opaque payload.
\<close>

datatype MessageKind = MESSAGE_SEND_TRANSACTION | MESSAGE_SEND_BLOCK

record Message =
  Identifier :: MessageKind
  Data :: bytes

definition NewMessage :: "MessageKind \<Rightarrow> Message" where
  "NewMessage k = \<lparr>Identifier = k, Data = None\<rparr>"

section \<open>The consensus engine\<close>

datatype LogLine =
    TransactionVerificationFailed Transaction
  | BlockExists Block
  | BlockVerificationFailed Block
  | MissingBlocksInBetween
  | NewBlockArrived Block
  | TransactionsAreDifferent
  | ChainSize nat

text \<open>
  The state owned by \<open>Run\<close>: the pending block, the chain and the public key of the
  node, and what the loop has written so far: to the network queue \<open>nq\<close>, to the
  miner's handoff channel \<open>interruptBlockGen\<close> and to the log. A send on a channel is
  taken to complete.
\<close>

record Blockchain =
  CurrentBlock :: Block
  BlockSlice :: "Block list"
  KeypairPublic :: bytes
  nq :: "Message list"
  interruptBlockGen :: "Block list"
  logged :: "LogLine list"

definition CreateNewBlock :: "Collaborators \<Rightarrow> Blockchain \<Rightarrow> Block" where
  "CreateNewBlock env bl =
     (let prevBlockHash = (case PreviousBlock (BlockSlice bl) of
                             None \<Rightarrow> Some []
                           | Some prevBlock \<Rightarrow> Hash env prevBlock);
          b = NewBlock prevBlockHash
      in b\<lparr>BlockHeader := map_option (\<lambda>h. h\<lparr>Origin := KeypairPublic bl\<rparr>) (BlockHeader b)\<rparr>)"

definition AddBlock :: "Block \<Rightarrow> Blockchain \<Rightarrow> Blockchain" where
  "AddBlock b bl = bl\<lparr>BlockSlice := BlockSlice bl @ [b]\<rparr>"

text \<open>The branch \<open>case tr := <-bl.tq\<close> of \<open>Run\<close>.\<close>

definition on_transaction :: "Collaborators \<Rightarrow> Transaction \<Rightarrow> Blockchain \<Rightarrow> Blockchain" where
  "on_transaction env tr bl =
     (if TransactionSlice_Exists (TransactionSlice (CurrentBlock bl)) tr then bl
      else if \<not> VerifyTransaction env tr
      then bl\<lparr>logged := logged bl @ [TransactionVerificationFailed tr]\<rparr>
      else
        let bl1 = bl\<lparr>CurrentBlock := AddTransaction tr (CurrentBlock bl)\<rparr>;
            bl2 = bl1\<lparr>interruptBlockGen := interruptBlockGen bl1 @ [CurrentBlock bl1]\<rparr>;
            mes = (NewMessage MESSAGE_SEND_TRANSACTION)\<lparr>Data := MarshalTransaction env tr\<rparr>
        in bl2\<lparr>nq := nq bl2 @ [mes]\<rparr>)"

text \<open>
  The branch \<open>case b := <-bl.bq\<close> of \<open>Run\<close>. Reading a field through a \<open>nil\<close> header
  pointer panics: the result is \<open>None\<close> then. The test that guards the gap branch is
  the source's: \<open>reflect.DeepEqual(b.PrevBlock, bl.CurrentBlock.Hash())\<close>.
\<close>

definition on_block :: "Collaborators \<Rightarrow> Block \<Rightarrow> Blockchain \<Rightarrow> Blockchain option" where
  "on_block env b bl =
     (if BlockSlice_Exists env (BlockSlice bl) b
      then Some (bl\<lparr>logged := logged bl @ [BlockExists b]\<rparr>)
      else if \<not> VerifyBlock env b
      then Some (bl\<lparr>logged := logged bl @ [BlockVerificationFailed b]\<rparr>)
      else
        case BlockHeader b of
          None \<Rightarrow> None
        | Some bh \<Rightarrow>
            if PrevBlock bh = Hash env (CurrentBlock bl)
            then Some (bl\<lparr>logged := logged bl @ [MissingBlocksInBetween]\<rparr>)
            else
              case BlockHeader (CurrentBlock bl) of
                None \<Rightarrow> None
              | Some ch \<Rightarrow>
                  let different = (MerkelRoot bh \<noteq> MerkelRoot ch);
                      transDiff = (if different
                                   then DiffTransactionSlices (TransactionSlice (CurrentBlock bl))
                                          (TransactionSlice b)
                                   else []);
                      bl1 = bl\<lparr>logged := logged bl @ [NewBlockArrived b]
                                  @ (if different then [TransactionsAreDifferent] else [])\<rparr>;
                      bl2 = AddBlock b bl1;
                      bl3 = bl2\<lparr>logged := logged bl2 @ [ChainSize (length (BlockSlice bl2))]\<rparr>;
                      mes = (NewMessage MESSAGE_SEND_BLOCK)\<lparr>Data := MarshalBlock env b\<rparr>;
                      bl4 = bl3\<lparr>nq := nq bl3 @ [mes]\<rparr>;
                      bl5 = bl4\<lparr>CurrentBlock := CreateNewBlock env bl4\<rparr>;
                      bl6 = bl5\<lparr>CurrentBlock := (CurrentBlock bl5)\<lparr>TransactionSlice := transDiff\<rparr>\<rparr>
                  in Some (bl6\<lparr>interruptBlockGen := interruptBlockGen bl6 @ [CurrentBlock bl6]\<rparr>))"

text \<open>The loop of \<open>Run\<close> over the values it receives on its two input channels.\<close>

datatype Input = FromTq Transaction | FromBq Block

fun Run :: "Collaborators \<Rightarrow> Input list \<Rightarrow> Blockchain \<Rightarrow> Blockchain option" where
  "Run env [] bl = Some bl"
| "Run env (FromTq tr # rest) bl = Run env rest (on_transaction env tr bl)"
| "Run env (FromBq b # rest) bl =
     (case on_block env b bl of None \<Rightarrow> None | Some bl' \<Rightarrow> Run env rest bl')"

section \<open>The miner\<close>

text \<open>
  The variables of the goroutine started by \<open>GenerateBlocks\<close>: its \<open>block\<close> and the
  \<open>sleepTime\<close> of the current pass (nanoseconds), and what it has done so far: the blocks
  sent on the result queue \<open>bl.bq\<close> and, as a trace, every block whose hash was handed
  to \<open>CheckProofOfWork\<close>. The send on \<open>bl.bq\<close> is taken to complete.
\<close>

record Miner =
  block :: Block
  sleepTime :: int
  bq :: "Block list"
  hashed :: "Block list"

definition Nanosecond :: int where
  "Nanosecond = 1"

definition Hour :: int where
  "Hour = 3600 * 1000000000"

text \<open>
  The three assignments after the label \<open>loop\<close>. \<open>now\<close> is the reading of
  \<open>time.Now().Unix()\<close>, converted to \<open>uint32\<close>. A \<open>nil\<close> header panics.
\<close>

definition reseed :: "Collaborators \<Rightarrow> int \<Rightarrow> Miner \<Rightarrow> Miner option" where
  "reseed env now m =
     (case BlockHeader (block m) of
        None \<Rightarrow> None
      | Some h \<Rightarrow>
          Some (m\<lparr>block := (block m)\<lparr>BlockHeader :=
                  Some (h\<lparr>MerkelRoot := GenerateMerkelRoot env (block m),
                          Nonce := 0,
                          Timestamp := word_of_int now\<rparr>)\<rparr>\<rparr>))"

text \<open>One pass through the body of the inner \<open>for\<close>, up to its \<open>select\<close>.\<close>

definition search_pass :: "Collaborators \<Rightarrow> Miner \<Rightarrow> Miner option" where
  "search_pass env m0 =
     (let m = m0\<lparr>sleepTime := Nanosecond\<rparr> in
      if length (TransactionSlice (block m)) > 0
      then
        if CheckProofOfWork env (Hash env (block m))
        then
          let sealed = (block m)\<lparr>BlockSignature := Sign env (block m)\<rparr>
          in Some (m\<lparr>block := sealed, bq := bq m @ [sealed], sleepTime := Hour * 24,
                     hashed := hashed m @ [block m]\<rparr>)
        else
          case BlockHeader (block m) of
            None \<Rightarrow> None
          | Some h \<Rightarrow>
              Some (m\<lparr>block := (block m)\<lparr>BlockHeader := Some (h\<lparr>Nonce := Nonce h + 1\<rparr>)\<rparr>,
                      hashed := hashed m @ [block m]\<rparr>)
      else Some (m\<lparr>sleepTime := Hour * 24\<rparr>))"

text \<open>
  What the \<open>select\<close> receives: a new seed on the handoff channel (with the clock reading
  of the reseed that follows), or the expiry of the timer.
\<close>

datatype MinerEvent = Interrupt Block int | TimeAfter

fun miner_step :: "Collaborators \<Rightarrow> MinerEvent \<Rightarrow> Miner \<Rightarrow> Miner option" where
  "miner_step env (Interrupt b now) m =
     (case reseed env now (m\<lparr>block := b\<rparr>) of
        None \<Rightarrow> None
      | Some m' \<Rightarrow> search_pass env m')"
| "miner_step env TimeAfter m = search_pass env m"

fun miner_run :: "Collaborators \<Rightarrow> MinerEvent list \<Rightarrow> Miner \<Rightarrow> Miner option" where
  "miner_run env [] m = Some m"
| "miner_run env (ev # evs) m =
     (case miner_step env ev m of None \<Rightarrow> None | Some m' \<Rightarrow> miner_run env evs m')"

text \<open>
  The goroutine from its first seed on: \<open>block := <-interrupt\<close>, then the events that
  follow. Before the first seed it is blocked and has done nothing.
\<close>

definition GenerateBlocks :: "Collaborators \<Rightarrow> Block \<Rightarrow> int \<Rightarrow> MinerEvent list \<Rightarrow> Miner option" where
  "GenerateBlocks env b now evs =
     miner_run env (Interrupt b now # evs)
       \<lparr>block = b, sleepTime = Nanosecond, bq = [], hashed = []\<rparr>"

text \<open>A seed whose header pointer is \<open>nil\<close> makes the goroutine panic; the others do not.\<close>

fun seed_has_header :: "MinerEvent \<Rightarrow> bool" where
  "seed_has_header (Interrupt b now) = (BlockHeader b \<noteq> None)"
| "seed_has_header TimeAfter = True"

section \<open>The replication transport\<close>

definition reqTypeFirstBlock :: "8 word" where "reqTypeFirstBlock = 43"
definition reqTypeLastBlock :: "8 word" where "reqTypeLastBlock = 44"
definition reqTypeBlock :: "8 word" where "reqTypeBlock = 45"
definition reqTypeBlockBroadcast :: "8 word" where "reqTypeBlockBroadcast = 46"
definition reqTypeTxBroadcast :: "8 word" where "reqTypeTxBroadcast = 47"

datatype error = EOF | Failure string

text \<open>A connection: its identity and what \<open>RemoteAddr().String()\<close> returns.\<close>

record Conn =
  connId :: nat
  RemoteAddr :: string

text \<open>A virtual node of the ring, as far as the transport reads it.\<close>

record Vnode =
  Id :: bytes
  Host :: string

text \<open>
  What the network does during one outbound call: the result of \<open>sock.Dial\<close> if the
  call has to dial, the results of encoding the header and the request, and the result
  of decoding the response together with the value the decoder leaves in the response
  variable.
\<close>

record Exchange =
  dial :: "error + Conn"
  encodeHeader :: "error option"
  encodeRequest :: "error option"
  decodeError :: "error option"
  decoded :: Block

text \<open>
  The surroundings of the transport: the ring (\<open>Lookup\<close>, \<open>Hostname\<close>), the configured
  \<open>NumSuccessors\<close>, the exchange that the \<open>n\<close>-th outbound call meets, and the order in
  which a \<open>range\<close> over a map with the given keys visits them.
\<close>

record Surroundings =
  Lookup :: "int \<Rightarrow> bytes \<Rightarrow> error + Vnode list"
  Hostname :: string
  NumSuccessors :: int
  exchanges :: "nat \<Rightarrow> Exchange"
  rangeOrder :: "string list \<Rightarrow> string list"

text \<open>
  The transport: the pool \<open>outbound\<close> of idle connections and the blocks sent on the
  engine's channel \<open>bch\<close>; as traces, the connections closed, every outbound call made
  (request type and host) and the errors logged.
\<close>

record ChordTransport =
  outbound :: "string \<rightharpoonup> Conn list"
  bch :: "Block list"
  closed :: "Conn list"
  requests :: "(8 word \<times> string) list"
  errlog :: "error list"

definition zeroBlock :: Block where
  "zeroBlock = \<lparr>BlockHeader = None, BlockSignature = None, TransactionSlice = []\<rparr>"

definition getConn :: "Exchange \<Rightarrow> string \<Rightarrow> ChordTransport \<Rightarrow> (error + Conn) \<times> ChordTransport" where
  "getConn x addr ct =
     (case outbound ct addr of
        Some (out # c) \<Rightarrow> (Inr out, ct\<lparr>outbound := (outbound ct)(addr \<mapsto> c)\<rparr>)
      | _ \<Rightarrow> (dial x, ct))"

definition returnConn :: "Conn \<Rightarrow> ChordTransport \<Rightarrow> ChordTransport" where
  "returnConn conn ct =
     (let addr = RemoteAddr conn in
      case outbound ct addr of
        None \<Rightarrow> ct\<lparr>outbound := (outbound ct)(addr \<mapsto> [conn])\<rparr>
      | Some p \<Rightarrow> ct\<lparr>outbound := (outbound ct)(addr \<mapsto> p @ [conn])\<rparr>)"

definition Close :: "Conn \<Rightarrow> ChordTransport \<Rightarrow> ChordTransport" where
  "Close conn ct = ct\<lparr>closed := closed ct @ [conn]\<rparr>"

text \<open>
  \<open>doRequest\<close>. The response parameter is \<open>None\<close> for \<open>nil\<close>, else the value of the
  variable it points to; the second component of the result is that value afterwards.
\<close>

definition doRequest :: "Surroundings \<Rightarrow> string \<Rightarrow> 8 word \<Rightarrow> Block option \<Rightarrow> ChordTransport
    \<Rightarrow> error option \<times> Block option \<times> ChordTransport" where
  "doRequest env host typ resp ct0 =
     (let x = exchanges env (length (requests ct0));
          ct = ct0\<lparr>requests := requests ct0 @ [(typ, host)]\<rparr>
      in case getConn x host ct of
           (Inl err, ct1) \<Rightarrow> (Some err, resp, ct1)
         | (Inr conn, ct1) \<Rightarrow>
             let (err, resp') =
                   (case encodeHeader x of
                      Some e \<Rightarrow> (Some e, resp)
                    | None \<Rightarrow>
                        (case encodeRequest x of
                           Some e \<Rightarrow> (Some e, resp)
                         | None \<Rightarrow>
                             (case resp of
                                None \<Rightarrow> (None, resp)
                              | Some _ \<Rightarrow> (decodeError x, Some (decoded x)))))
             in case err of
                  Some e \<Rightarrow> (if e = EOF then None else Some e, resp', Close conn ct1)
                | None \<Rightarrow> (None, resp', returnConn conn ct1))"

text \<open>\<open>getBlockByType\<close>: the block pointer returned is \<open>nil\<close> when no connection is had.\<close>

definition getBlockByType :: "Surroundings \<Rightarrow> 8 word \<Rightarrow> string \<Rightarrow> ChordTransport
    \<Rightarrow> Block option \<times> error option \<times> ChordTransport" where
  "getBlockByType env typ host ct0 =
     (let x = exchanges env (length (requests ct0));
          ct = ct0\<lparr>requests := requests ct0 @ [(typ, host)]\<rparr>
      in case getConn x host ct of
           (Inl err, ct1) \<Rightarrow> (None, Some err, ct1)
         | (Inr conn, ct1) \<Rightarrow>
             let (err, blk) =
                   (case encodeHeader x of
                      Some e \<Rightarrow> (Some e, zeroBlock)
                    | None \<Rightarrow> (decodeError x, decoded x))
             in case err of
                  Some e \<Rightarrow> (Some blk, if e = EOF then None else Some e, Close conn ct1)
                | None \<Rightarrow> (Some blk, None, returnConn conn ct1))"

text \<open>
  \<open>UniqueHosts\<close>: the map \<open>m\<close> is an association list with one entry per key; the second
  loop ranges over its keys in the order the runtime picks.
\<close>

definition UniqueHosts :: "(string list \<Rightarrow> string list) \<Rightarrow> Vnode list \<Rightarrow> string list" where
  "UniqueHosts order vl =
     (let m = foldl (\<lambda>m v. AList.update (Host v) True m) [] vl
      in order (map fst m))"

text \<open>The loop of the goroutine that \<open>broadcast\<close> starts, run to its end.\<close>

fun broadcast_hosts :: "Surroundings \<Rightarrow> 8 word \<Rightarrow> string list \<Rightarrow> ChordTransport \<Rightarrow> ChordTransport" where
  "broadcast_hosts env typ [] ct = ct"
| "broadcast_hosts env typ (host # hosts) ct =
     (if host = Hostname env then broadcast_hosts env typ hosts ct
      else
        case doRequest env host typ None ct of
          (Some err, _, ct') \<Rightarrow> broadcast_hosts env typ hosts (ct'\<lparr>errlog := errlog ct' @ [err]\<rparr>)
        | (None, _, ct') \<Rightarrow> broadcast_hosts env typ hosts ct')"

definition broadcast :: "Surroundings \<Rightarrow> 8 word \<Rightarrow> bytes \<Rightarrow> ChordTransport
    \<Rightarrow> error option \<times> ChordTransport" where
  "broadcast env typ hsh ct =
     (case Lookup env (NumSuccessors env) hsh of
        Inl err \<Rightarrow> (Some err, ct)
      | Inr nodes \<Rightarrow>
          (None, broadcast_hosts env typ (UniqueHosts (rangeOrder env) nodes) ct))"

text \<open>\<open>RequestBlocks\<close>: the inner loop over the hosts of one hash, then the outer loop.\<close>

fun request_hosts :: "Surroundings \<Rightarrow> string list \<Rightarrow> ChordTransport \<Rightarrow> ChordTransport" where
  "request_hosts env [] ct = ct"
| "request_hosts env (host # uhosts) ct =
     (if host = Hostname env then request_hosts env uhosts ct
      else
        case doRequest env host reqTypeBlock (Some zeroBlock) ct of
          (Some e, _, ct') \<Rightarrow> request_hosts env uhosts (ct'\<lparr>errlog := errlog ct' @ [e]\<rparr>)
        | (None, None, ct') \<Rightarrow> request_hosts env uhosts ct'
        | (None, Some blk, ct') \<Rightarrow>
            if BlockHeader blk = None then request_hosts env uhosts ct'
            else request_hosts env uhosts (ct'\<lparr>bch := bch ct' @ [blk]\<rparr>))"

fun RequestBlocks :: "Surroundings \<Rightarrow> bytes list \<Rightarrow> ChordTransport \<Rightarrow> ChordTransport" where
  "RequestBlocks env [] ct = ct"
| "RequestBlocks env (hsh # hashes) ct =
     (case Lookup env (NumSuccessors env) hsh of
        Inl err \<Rightarrow> RequestBlocks env hashes (ct\<lparr>errlog := errlog ct @ [err]\<rparr>)
      | Inr vns \<Rightarrow>
          RequestBlocks env hashes (request_hosts env (UniqueHosts (rangeOrder env) vns) ct))"

text \<open>
  The connections idle in the pool, and the condition under which no connection can be
  handed out twice or after it was closed: every idle list is free of duplicates, holds
  only connections to the host it is keyed by, and holds no closed connection.
\<close>

definition pooled :: "ChordTransport \<Rightarrow> Conn set" where
  "pooled ct = {c. \<exists>h cs. outbound ct h = Some cs \<and> c \<in> set cs}"

definition pool_sound :: "ChordTransport \<Rightarrow> bool" where
  "pool_sound ct = (\<forall>h cs. outbound ct h = Some cs \<longrightarrow>
      distinct cs \<and> (\<forall>c\<in>set cs. RemoteAddr c = h \<and> c \<notin> set (closed ct)))"

section \<open>Concrete values\<close>

text \<open>
  Values at which the theorems below are instantiated. The transactions differ in their
  signatures only.
\<close>

definition exTx :: "8 word list \<Rightarrow> Transaction" where
  "exTx s = \<lparr>From = None, To = None, TxTimestamp = 0, PayloadHash = None, PayloadLength = 0,
             TxNonce = 0, Signature = Some s\<rparr>"

text \<open>
  Collaborators for the examples: a block hashes to its previous-hash followed by the low
  byte of its nonce, every block verifies, a transaction verifies when its nonce is 0,
  the Merkle root is the concatenation of the signatures, and a hash meets the
  difficulty when its last byte is 0.
\<close>

definition exHash :: "Block \<Rightarrow> bytes" where
  "exHash b =
     (case BlockHeader b of
        None \<Rightarrow> None
      | Some h \<Rightarrow> Some ((case PrevBlock h of None \<Rightarrow> [] | Some p \<Rightarrow> p) @ [ucast (Nonce h)]))"

definition exCollaborators :: Collaborators where
  "exCollaborators =
     \<lparr>Hash = exHash,
      VerifyBlock = (\<lambda>b. True),
      VerifyTransaction = (\<lambda>t. TxNonce t = 0),
      MerkelRootOf = (\<lambda>txs. Some (concat (map sig_bytes txs))),
      CheckProofOfWork = (\<lambda>h. case h of None \<Rightarrow> False | Some bs \<Rightarrow> bs \<noteq> [] \<and> last bs = 0),
      Sign = (\<lambda>b. Some [83]),
      MarshalTransaction = Signature,
      MarshalBlock = exHash\<rparr>"

text \<open>
  A chain of one block, the pending block built on it, and an incoming block whose
  previous-hash is neither the hash of the chain tip nor the hash of the pending block.
\<close>

definition exGenesis :: Block where
  "exGenesis =
     \<lparr>BlockHeader = Some \<lparr>Origin = Some [2], PrevBlock = Some [], MerkelRoot = Some [1],
                           Timestamp = 0, Nonce = 1\<rparr>,
      BlockSignature = Some [83], TransactionSlice = [exTx [1]]\<rparr>"

definition exPending :: Block where
  "exPending =
     \<lparr>BlockHeader = Some \<lparr>Origin = Some [2], PrevBlock = Some [1], MerkelRoot = None,
                           Timestamp = 0, Nonce = 0\<rparr>,
      BlockSignature = None, TransactionSlice = [exTx [4]]\<rparr>"

definition exChain :: Blockchain where
  "exChain =
     \<lparr>CurrentBlock = exPending, BlockSlice = [exGenesis], KeypairPublic = Some [2],
      nq = [], interruptBlockGen = [], logged = []\<rparr>"

definition exOrphanHeader :: BlockHeader where
  "exOrphanHeader =
     \<lparr>Origin = Some [3], PrevBlock = Some [7, 7], MerkelRoot = Some [5],
      Timestamp = 0, Nonce = 3\<rparr>"

definition exOrphan :: Block where
  "exOrphan =
     \<lparr>BlockHeader = Some exOrphanHeader, BlockSignature = Some [83],
      TransactionSlice = [exTx [5]]\<rparr>"

text \<open>A miner that has sealed nothing yet, and a seed without transactions.\<close>

definition exMiner :: Miner where
  "exMiner = \<lparr>block = exGenesis, sleepTime = Hour * 24, bq = [], hashed = []\<rparr>"

definition exPendingHeader :: BlockHeader where
  "exPendingHeader =
     \<lparr>Origin = Some [2], PrevBlock = Some [1], MerkelRoot = None, Timestamp = 0, Nonce = 0\<rparr>"

definition exEmptySeed :: Block where
  "exEmptySeed =
     \<lparr>BlockHeader = Some exPendingHeader, BlockSignature = None, TransactionSlice = []\<rparr>"

text \<open>
  Surroundings for the examples: the lookup returns two virtual nodes on host A, one on
  host B and one on the local host; a range over a map visits the keys in insertion
  order; the first outbound call is answered with the empty block, the second with
  \<open>exGenesis\<close>, the third fails while the header is encoded, and later calls cannot dial.
\<close>

definition exVnodes :: "Vnode list" where
  "exVnodes =
     [\<lparr>Id = Some [1], Host = ''A:9000''\<rparr>, \<lparr>Id = Some [2], Host = ''A:9000''\<rparr>,
      \<lparr>Id = Some [3], Host = ''B:9000''\<rparr>, \<lparr>Id = Some [4], Host = ''local:9000''\<rparr>]"

definition exExchange :: "nat \<Rightarrow> Exchange" where
  "exExchange n =
     (if n = 0
      then \<lparr>dial = Inr \<lparr>connId = 0, RemoteAddr = ''A:9000''\<rparr>, encodeHeader = None,
            encodeRequest = None, decodeError = None, decoded = zeroBlock\<rparr>
      else if n = 1
      then \<lparr>dial = Inr \<lparr>connId = 1, RemoteAddr = ''B:9000''\<rparr>, encodeHeader = None,
            encodeRequest = None, decodeError = None, decoded = exGenesis\<rparr>
      else if n = 2
      then \<lparr>dial = Inr \<lparr>connId = 2, RemoteAddr = ''A:9000''\<rparr>,
            encodeHeader = Some (Failure ''broken pipe''),
            encodeRequest = None, decodeError = None, decoded = zeroBlock\<rparr>
      else \<lparr>dial = Inl (Failure ''timeout''), encodeHeader = None,
            encodeRequest = None, decodeError = None, decoded = zeroBlock\<rparr>)"

definition exSurroundings :: Surroundings where
  "exSurroundings =
     \<lparr>Lookup = (\<lambda>n hsh. Inr exVnodes), Hostname = ''local:9000'', NumSuccessors = 3,
      exchanges = exExchange, rangeOrder = (\<lambda>ks. ks)\<rparr>"

definition exTransport :: ChordTransport where
  "exTransport = \<lparr>outbound = Map.empty, bch = [], closed = [], requests = [], errlog = []\<rparr>"

text \<open>The same transport after two outbound calls, with one idle connection to host A.\<close>

definition exTransport2 :: ChordTransport where
  "exTransport2 =
     \<lparr>outbound = [''A:9000'' \<mapsto> [\<lparr>connId = 0, RemoteAddr = ''A:9000''\<rparr>]], bch = [], closed = [],
      requests = [(reqTypeBlock, ''A:9000''), (reqTypeBlock, ''B:9000'')], errlog = []\<rparr>"

section \<open>Properties of DiffTransactionSlices\<close>

lemma scan_from_SomeD:
  "scan_from s b j = Some k \<Longrightarrow>
   j \<le> k \<and> k < length b \<and> Signature (b ! k) = s \<and>
   (\<forall>i. j \<le> i \<and> i < k \<longrightarrow> Signature (b ! i) \<noteq> s)"
proof (induction s b j rule: scan_from.induct)
  case (1 s b j)
  show ?case
  proof (cases "j < length b \<and> Signature (b ! j) \<noteq> s")
    case True
    with "1.prems" have "scan_from s b (j + 1) = Some k"
      by (simp add: scan_from.simps [of s b j])
    with "1.IH" True have IH: "j + 1 \<le> k \<and> k < length b \<and> Signature (b ! k) = s \<and>
        (\<forall>i. j + 1 \<le> i \<and> i < k \<longrightarrow> Signature (b ! i) \<noteq> s)"
      by simp
    have "\<And>i. j \<le> i \<Longrightarrow> i < k \<Longrightarrow> Signature (b ! i) \<noteq> s"
    proof -
      fix i assume "j \<le> i" "i < k"
      then show "Signature (b ! i) \<noteq> s" using IH True by (cases "i = j") auto
    qed
    with IH show ?thesis by auto
  next
    case False
    with "1.prems" show ?thesis
      by (auto simp: scan_from.simps [of s b j] split: if_splits)
  qed
qed

lemma scan_from_NoneD:
  "scan_from s b j = None \<Longrightarrow> j \<le> i \<Longrightarrow> i < length b \<Longrightarrow> Signature (b ! i) \<noteq> s"
proof (induction s b j rule: scan_from.induct)
  case (1 s b j)
  from "1.prems" have jl: "j < length b" by simp
  with "1.prems"(1) have ne: "Signature (b ! j) \<noteq> s" and rest: "scan_from s b (j + 1) = None"
    by (auto simp: scan_from.simps [of s b j] split: if_splits)
  show ?case
  proof (cases "i = j")
    case True with ne show ?thesis by simp
  next
    case False
    with "1.prems" have "j + 1 \<le> i" by simp
    with "1.IH" jl ne rest "1.prems" show ?thesis by simp
  qed
qed

lemma scan_from_hit:
  "j \<le> i \<Longrightarrow> i < length b \<Longrightarrow> Signature (b ! i) = s \<Longrightarrow>
   \<exists>k. scan_from s b j = Some k \<and> k \<le> i"
proof (cases "scan_from s b j")
  case None
  assume "j \<le> i" "i < length b" "Signature (b ! i) = s"
  with scan_from_NoneD [OF None] show ?thesis by blast
next
  case (Some k)
  assume a: "j \<le> i" "i < length b" "Signature (b ! i) = s"
  from scan_from_SomeD [OF Some] a have "k \<le> i" by (metis not_le_imp_less)
  with Some show ?thesis by simp
qed

lemma scan_from_Least:
  assumes "\<exists>j. c \<le> j \<and> j < length b \<and> Signature (b ! j) = s"
  shows "scan_from s b c = Some (LEAST j. c \<le> j \<and> j < length b \<and> Signature (b ! j) = s)"
proof -
  from assms obtain i where i: "c \<le> i" "i < length b" "Signature (b ! i) = s" by blast
  from scan_from_hit [OF i] obtain k where k: "scan_from s b c = Some k" by blast
  note kd = scan_from_SomeD [OF k]
  have "(LEAST j. c \<le> j \<and> j < length b \<and> Signature (b ! j) = s) = k"
  proof (rule Least_equality)
    show "c \<le> k \<and> k < length b \<and> Signature (b ! k) = s" using kd by simp
  next
    fix y assume "c \<le> y \<and> y < length b \<and> Signature (b ! y) = s"
    with kd show "k \<le> y" by (metis not_le_imp_less)
  qed
  with k show ?thesis by simp
qed

lemma scan_from_None_iff:
  "scan_from s b c = None \<longleftrightarrow> \<not> (\<exists>j. c \<le> j \<and> j < length b \<and> Signature (b ! j) = s)"
proof
  assume "scan_from s b c = None"
  from scan_from_NoneD [OF this]
  show "\<not> (\<exists>j. c \<le> j \<and> j < length b \<and> Signature (b ! j) = s)" by blast
next
  assume "\<not> (\<exists>j. c \<le> j \<and> j < length b \<and> Signature (b ! j) = s)"
  then show "scan_from s b c = None"
    using scan_from_SomeD [of s b c] by (cases "scan_from s b c") auto
qed

lemma scan_from_skip:
  "(c < length b \<Longrightarrow> Signature (b ! c) \<noteq> s) \<Longrightarrow> scan_from s b c = scan_from s b (c + 1)"
  by (cases "c < length b")
    (simp_all add: scan_from.simps [of s b c] scan_from.simps [of s b "Suc c"])

lemma diff_loop_step:
  "diff_loop (t # ts) b c d =
     (if \<exists>j. c \<le> j \<and> j < length b \<and> Signature (b ! j) = Signature t
      then diff_loop ts b (LEAST j. c \<le> j \<and> j < length b \<and> Signature (b ! j) = Signature t) d
      else diff_loop ts b c (d @ [t]))"
proof (cases "\<exists>j. c \<le> j \<and> j < length b \<and> Signature (b ! j) = Signature t")
  case True
  from scan_from_Least [OF True] True show ?thesis by simp
next
  case False
  then have "scan_from (Signature t) b c = None" by (simp add: scan_from_None_iff)
  then show ?thesis by (simp only: diff_loop.simps option.simps if_not_P [OF False])
qed

lemma diff_loop_cursor_mono: "lastj \<le> fst (diff_loop a b lastj d)"
proof (induction a arbitrary: lastj d)
  case Nil show ?case by simp
next
  case (Cons t ts)
  show ?case
  proof (cases "scan_from (Signature t) b lastj")
    case None with Cons show ?thesis by simp
  next
    case (Some j)
    from scan_from_SomeD [OF Some] have "lastj \<le> j" by simp
    also have "j \<le> fst (diff_loop ts b j d)" by (rule Cons.IH)
    finally show ?thesis using Some by simp
  qed
qed

lemma diff_loop_acc: "\<exists>xs. snd (diff_loop a b lastj d) = d @ xs \<and> subseq xs a"
proof (induction a arbitrary: lastj d)
  case Nil show ?case by simp
next
  case (Cons t ts)
  show ?case
  proof (cases "scan_from (Signature t) b lastj")
    case None
    from Cons.IH [of lastj "d @ [t]"] obtain xs where
      "snd (diff_loop ts b lastj (d @ [t])) = (d @ [t]) @ xs" "subseq xs ts" by blast
    with None show ?thesis by (intro exI [of _ "t # xs"]) simp
  next
    case (Some j)
    from Cons.IH [of j d] obtain xs where
      "snd (diff_loop ts b j d) = d @ xs" "subseq xs ts" by blast
    with Some show ?thesis by (intro exI [of _ xs]) (simp add: list_emb_Cons)
  qed
qed

lemma diff_loop_self_aux:
  "lastj \<le> length p \<Longrightarrow> snd (diff_loop a (p @ a) lastj d) = d"
proof (induction a arbitrary: p lastj d)
  case Nil show ?case by simp
next
  case (Cons t ts)
  have "length p < length (p @ t # ts)" "Signature ((p @ t # ts) ! length p) = Signature t"
    by simp_all
  with Cons.prems scan_from_hit [of lastj "length p" "p @ t # ts" "Signature t"]
  obtain k where k: "scan_from (Signature t) (p @ t # ts) lastj = Some k" "k \<le> length p"
    by blast
  from Cons.IH [of k "p @ [t]" d] k have "snd (diff_loop ts (p @ t # ts) k d) = d" by simp
  with k show ?case by simp
qed

lemma DiffTransactionSlices_self: "DiffTransactionSlices a a = []"
  using diff_loop_self_aux [of 0 "[]" a "[]"] by (simp add: DiffTransactionSlices_def)

lemma diff_loop_refines_aux:
  "distinct (map Signature a) \<Longrightarrow>
   c' = c \<or> (c' = c + 1 \<and> (c < length b \<longrightarrow> Signature (b ! c) \<notin> Signature ` set a)) \<Longrightarrow>
   snd (diff_loop a b c d) = snd (spec_diff_loop a b c' d)"
proof (induction a arbitrary: c c' d)
  case Nil show ?case by simp
next
  case (Cons t ts)
  from Cons.prems(1) have dts: "distinct (map Signature ts)"
    and fresh: "Signature t \<notin> Signature ` set ts" by simp_all
  have same: "scan_from (Signature t) b c' = scan_from (Signature t) b c"
  proof (cases "c' = c")
    case True then show ?thesis by simp
  next
    case False
    with Cons.prems(2) have c': "c' = c + 1"
      and "c < length b \<longrightarrow> Signature (b ! c) \<notin> Signature ` set (t # ts)" by auto
    then have "c < length b \<Longrightarrow> Signature (b ! c) \<noteq> Signature t" by auto
    from scan_from_skip [OF this] c' show ?thesis by simp
  qed
  show ?case
  proof (cases "scan_from (Signature t) b c")
    case None
    from Cons.prems(2)
    have "c' = c \<or> (c' = c + 1 \<and> (c < length b \<longrightarrow> Signature (b ! c) \<notin> Signature ` set ts))"
      by auto
    from Cons.IH [OF dts this] None same show ?thesis by simp
  next
    case (Some j)
    from scan_from_SomeD [OF Some] have "Signature (b ! j) = Signature t" by simp
    with fresh
    have "j + 1 = j \<or> (j + 1 = j + 1 \<and> (j < length b \<longrightarrow> Signature (b ! j) \<notin> Signature ` set ts))"
      by simp
    from Cons.IH [OF dts this] Some same show ?thesis by simp
  qed
qed

lemma DiffTransactionSlices_refines:
  "distinct (map Signature a) \<Longrightarrow> DiffTransactionSlices a b = SpecDiffTransactionSlices a b"
  using diff_loop_refines_aux [of a 0 0 b "[]"]
  by (simp add: DiffTransactionSlices_def SpecDiffTransactionSlices_def)

subsection \<open>The claims about DiffTransactionSlices\<close>


text \<open>
  Claim C2, as amended. \<open>DiffTransactionSlices\<close> scans \<open>a\<close> in order with one cursor into
  \<open>b\<close>. For the transaction \<open>t\<close> at the head of what is left of \<open>a\<close>: if \<open>b\<close> holds a
  matching signature at an index from the cursor on, the cursor moves to the first such
  index (to it, not past it) and \<open>t\<close> is not emitted; otherwise the cursor stays and \<open>t\<close>
  is appended to the diff. The cursor never decreases. When no signature occurs twice in
  \<open>a\<close>, the result is that of the scan that advances the cursor past each match.
\<close>

theorem DiffTransactionSlices_cursor_scan:
  "diff_loop (t # ts) b c d =
     (if \<exists>j. c \<le> j \<and> j < length b \<and> Signature (b ! j) = Signature t
      then diff_loop ts b (LEAST j. c \<le> j \<and> j < length b \<and> Signature (b ! j) = Signature t) d
      else diff_loop ts b c (d @ [t])) \<and>
   c \<le> fst (diff_loop a b c d) \<and>
   (distinct (map Signature a) \<longrightarrow> DiffTransactionSlices a b = SpecDiffTransactionSlices a b)"
  using diff_loop_step [of t ts b c d] diff_loop_cursor_mono [of c a b d]
    DiffTransactionSlices_refines [of a b]
  by blast

text \<open>The theorem at three transactions with distinct signatures.\<close>

theorem DiffTransactionSlices_cursor_scan_witness:
  "distinct (map Signature [exTx [1], exTx [2], exTx [3]]) \<and>
   DiffTransactionSlices [exTx [1], exTx [2], exTx [3]] [exTx [1], exTx [3]] = [exTx [2]] \<and>
   SpecDiffTransactionSlices [exTx [1], exTx [2], exTx [3]] [exTx [1], exTx [3]] = [exTx [2]] \<and>
   (0::nat) \<le> fst (diff_loop [exTx [1], exTx [2], exTx [3]] [exTx [1], exTx [3]] 0 [])"
proof -
  let ?a = "[exTx [1], exTx [2], exTx [3]]"
  let ?b = "[exTx [1], exTx [3]]"
  have d: "distinct (map Signature ?a)" by (simp add: exTx_def)
  have e: "DiffTransactionSlices ?a ?b = [exTx [2]]"
    by (simp add: DiffTransactionSlices_def exTx_def scan_from.simps)
  from DiffTransactionSlices_cursor_scan [of "exTx [1]" "[exTx [2], exTx [3]]" ?b 0 "[]" ?a] d
  have "DiffTransactionSlices ?a ?b = SpecDiffTransactionSlices ?a ?b \<and>
        0 \<le> fst (diff_loop ?a ?b 0 [])" by blast
  with d e show ?thesis by simp
qed

text \<open>
  Claim C2 as stated fails: both sequences below are ordered by signature, the match of
  the first transaction at index 0 leaves the cursor at 0, the second transaction matches
  the same element of \<open>b\<close> again, and the result differs from that of the scan that
  advances past the match.
\<close>

theorem DiffTransactionSlices_cursor_stays_on_match:
  "sorted_by_signature [exTx [1], exTx [1]] \<and> sorted_by_signature [exTx [1]] \<and>
   scan_from (Signature (exTx [1])) [exTx [1]] 0 = Some 0 \<and>
   fst (diff_loop [exTx [1]] [exTx [1]] 0 []) = 0 \<and>
   DiffTransactionSlices [exTx [1], exTx [1]] [exTx [1]] = [] \<and>
   SpecDiffTransactionSlices [exTx [1], exTx [1]] [exTx [1]] = [exTx [1]]"
  by (simp add: DiffTransactionSlices_def SpecDiffTransactionSlices_def exTx_def scan_from.simps
      sorted_by_signature_def sig_bytes_def)

text \<open>
  Claim C9. For every transaction sequence \<open>a\<close> sorted by signature,
  \<open>DiffTransactionSlices a a\<close> is the empty sequence. (By \<open>DiffTransactionSlices_self\<close>
  the result is empty for every \<open>a\<close>.)
\<close>

theorem DiffTransactionSlices_same_sorted:
  "sorted_by_signature a \<Longrightarrow> DiffTransactionSlices a a = []"
  by (rule DiffTransactionSlices_self)

text \<open>The theorem at a sorted sequence of three transactions.\<close>

theorem DiffTransactionSlices_same_sorted_witness:
  "sorted_by_signature [exTx [1], exTx [2, 0], exTx [2, 5]] \<and>
   DiffTransactionSlices [exTx [1], exTx [2, 0], exTx [2, 5]] [exTx [1], exTx [2, 0], exTx [2, 5]] = []"
proof -
  have s: "sorted_by_signature [exTx [1], exTx [2, 0], exTx [2, 5]]"
    by (simp add: sorted_by_signature_def sig_bytes_def exTx_def)
  from s DiffTransactionSlices_same_sorted [OF s] show ?thesis by simp
qed

text \<open>
  Claim C10. With no assumption on the order of \<open>a\<close> and \<open>b\<close>, the diff is a subsequence
  of \<open>a\<close>: every transaction emitted is an element of \<open>a\<close>, and the diff keeps the
  relative order of \<open>a\<close>.
\<close>

theorem DiffTransactionSlices_subseq:
  "subseq (DiffTransactionSlices a b) a \<and> set (DiffTransactionSlices a b) \<subseteq> set a"
proof -
  from diff_loop_acc [of a b 0 "[]"] have s: "subseq (DiffTransactionSlices a b) a"
    by (auto simp: DiffTransactionSlices_def)
  have "set (DiffTransactionSlices a b) \<subseteq> set a"
  proof
    fix x assume "x \<in> set (DiffTransactionSlices a b)"
    from list_emb_set [OF s this] show "x \<in> set a" by blast
  qed
  with s show ?thesis by simp
qed


section \<open>Properties of the consensus engine\<close>





lemma on_transaction_accepted:
  "\<not> TransactionSlice_Exists (TransactionSlice (CurrentBlock bl)) tr \<Longrightarrow> VerifyTransaction env tr \<Longrightarrow>
   TransactionSlice (CurrentBlock (on_transaction env tr bl)) = TransactionSlice (CurrentBlock bl) @ [tr] \<and>
   interruptBlockGen (on_transaction env tr bl)
     = interruptBlockGen bl @ [CurrentBlock (on_transaction env tr bl)] \<and>
   nq (on_transaction env tr bl)
     = nq bl @ [\<lparr>Identifier = MESSAGE_SEND_TRANSACTION, Data = MarshalTransaction env tr\<rparr>]"
  by (simp add: on_transaction_def Let_def AddTransaction_def NewMessage_def)





lemma on_block_gap:
  "\<not> BlockSlice_Exists env (BlockSlice bl) b \<Longrightarrow> VerifyBlock env b \<Longrightarrow> BlockHeader b = Some bh \<Longrightarrow>
   PrevBlock bh = Hash env (CurrentBlock bl) \<Longrightarrow>
   on_block env b bl = Some (bl\<lparr>logged := logged bl @ [MissingBlocksInBetween]\<rparr>)"
  by (simp add: on_block_def)

lemma on_block_append:
  "\<not> BlockSlice_Exists env (BlockSlice bl) b \<Longrightarrow> VerifyBlock env b \<Longrightarrow> BlockHeader b = Some bh \<Longrightarrow>
   BlockHeader (CurrentBlock bl) = Some ch \<Longrightarrow>
   PrevBlock bh \<noteq> Hash env (CurrentBlock bl) \<Longrightarrow>
   \<exists>bl'. on_block env b bl = Some bl' \<and> BlockSlice bl' = BlockSlice bl @ [b] \<and>
     nq bl' = nq bl @ [\<lparr>Identifier = MESSAGE_SEND_BLOCK, Data = MarshalBlock env b\<rparr>] \<and>
     interruptBlockGen bl' = interruptBlockGen bl @ [CurrentBlock bl']"
  by (simp add: on_block_def Let_def AddBlock_def NewMessage_def)

lemma ex_hashes:
  "exHash exGenesis = Some [1]" "exHash exPending = Some [1, 0]" "exHash exOrphan = Some [7, 7, 3]"
  by (simp_all add: exHash_def exGenesis_def exPending_def exOrphan_def exOrphanHeader_def)

text \<open>
  Claim C1, evaluated where the code departs from it. The chain tip is \<open>exGenesis\<close>; the
  incoming block verifies, is not in the chain, and its previous-hash is not the hash of
  the tip. The engine appends it and puts a block message on the network queue.
\<close>

theorem on_block_unlinked_block_appended:
  "PreviousBlock (BlockSlice exChain) = Some exGenesis \<and>
   BlockHeader exOrphan = Some exOrphanHeader \<and>
   PrevBlock exOrphanHeader \<noteq> Hash exCollaborators exGenesis \<and>
   \<not> BlockSlice_Exists exCollaborators (BlockSlice exChain) exOrphan \<and>
   VerifyBlock exCollaborators exOrphan \<and>
   map_option BlockSlice (on_block exCollaborators exOrphan exChain) = Some [exGenesis, exOrphan] \<and>
   map_option nq (on_block exCollaborators exOrphan exChain)
     = Some [\<lparr>Identifier = MESSAGE_SEND_BLOCK, Data = Some [7, 7, 3]\<rparr>]"
proof -
  have h: "Hash exCollaborators = exHash" "VerifyBlock exCollaborators exOrphan"
    "MarshalBlock exCollaborators = exHash"
    by (simp_all add: exCollaborators_def)
  have c: "BlockSlice exChain = [exGenesis]" "CurrentBlock exChain = exPending" "nq exChain = []"
    by (simp_all add: exChain_def)
  have o: "BlockHeader exOrphan = Some exOrphanHeader" "PrevBlock exOrphanHeader = Some [7, 7]"
    by (simp_all add: exOrphan_def exOrphanHeader_def)
  have p: "BlockHeader exPending = Some \<lparr>Origin = Some [2], PrevBlock = Some [1], MerkelRoot = None,
                           Timestamp = 0, Nonce = 0\<rparr>"
    by (simp add: exPending_def)
  have e: "\<not> BlockSlice_Exists exCollaborators (BlockSlice exChain) exOrphan"
    by (simp add: BlockSlice_Exists_def h c ex_hashes)
  from on_block_append [OF e h(2) o(1), of _ ] p
  obtain bl' where bl': "on_block exCollaborators exOrphan exChain = Some bl'"
    "BlockSlice bl' = BlockSlice exChain @ [exOrphan]"
    "nq bl' = nq exChain @ [\<lparr>Identifier = MESSAGE_SEND_BLOCK, Data = MarshalBlock exCollaborators exOrphan\<rparr>]"
    by (auto simp: c h o ex_hashes)
  have "PreviousBlock (BlockSlice exChain) = Some exGenesis" by (simp add: PreviousBlock_def c)
  with bl' e show ?thesis by (simp add: c h o ex_hashes)
qed


section \<open>Properties of the miner\<close>


lemma reseed_Some:
  "BlockHeader b = Some h \<Longrightarrow>
   reseed env now (m\<lparr>block := b\<rparr>) =
     Some (m\<lparr>block := b\<lparr>BlockHeader := Some (h\<lparr>MerkelRoot := MerkelRootOf env (TransactionSlice b),
                                                 Nonce := 0, Timestamp := word_of_int now\<rparr>)\<rparr>\<rparr>)"
  by (simp add: reseed_def GenerateMerkelRoot_def)

lemma search_pass_empty:
  "TransactionSlice (block m) = [] \<Longrightarrow> search_pass env m = Some (m\<lparr>sleepTime := Hour * 24\<rparr>)"
  by (simp add: search_pass_def)

lemma search_pass_hashed:
  "search_pass env m = Some m' \<Longrightarrow>
   hashed m' = hashed m @ (if TransactionSlice (block m) = [] then [] else [block m])"
  by (auto simp: search_pass_def Let_def split: if_splits option.splits)

lemma search_pass_total:
  "BlockHeader (block m) \<noteq> None \<Longrightarrow>
   \<exists>m'. search_pass env m = Some m' \<and> BlockHeader (block m') \<noteq> None"
  by (auto simp: search_pass_def Let_def split: option.splits)

lemma search_pass_bq:
  "search_pass env m = Some m' \<Longrightarrow>
   \<exists>new. bq m' = bq m @ new \<and> (\<forall>x\<in>set new. TransactionSlice x \<noteq> [])"
  by (auto simp: search_pass_def Let_def split: if_splits option.splits)

lemma miner_step_Interrupt_ignores:
  "miner_step env (Interrupt b now) (m\<lparr>block := old, sleepTime := s\<rparr>)
     = miner_step env (Interrupt b now) m"
proof (cases "BlockHeader b")
  case None
  then show ?thesis by (simp add: reseed_def)
next
  case (Some h)
  have "search_pass env (m\<lparr>sleepTime := s, block := b\<lparr>BlockHeader :=
          Some (h\<lparr>MerkelRoot := MerkelRootOf env (TransactionSlice b), Nonce := 0,
                  Timestamp := word_of_int now\<rparr>)\<rparr>\<rparr>)
      = search_pass env (m\<lparr>block := b\<lparr>BlockHeader :=
          Some (h\<lparr>MerkelRoot := MerkelRootOf env (TransactionSlice b), Nonce := 0,
                  Timestamp := word_of_int now\<rparr>)\<rparr>\<rparr>)"
    by (simp add: search_pass_def Let_def)
  then show ?thesis
    using reseed_Some [OF Some, of env now m] reseed_Some [OF Some, of env now "m\<lparr>sleepTime := s\<rparr>"]
    by simp
qed

text \<open>
  Claim C5. Every time the miner receives a seed \<open>b\<close> (with a header \<open>h\<close>) on its handoff
  channel, in whatever state \<open>m\<close>, the search continues from \<open>b\<close> with the Merkle root
  recomputed over the transactions of \<open>b\<close>, nonce 0 and the timestamp set to the current
  time: the pass that follows runs on that block, and if a hash is evaluated for the
  seed, the first block hashed is that block. The block and the sleep time the miner held
  before the seed make no difference to the outcome.
\<close>

theorem miner_step_reseeds:
  assumes "BlockHeader b = Some h"
  shows "\<exists>m'. miner_step env (Interrupt b now) m = Some m' \<and>
           miner_step env (Interrupt b now) m
             = search_pass env (m\<lparr>block := b\<lparr>BlockHeader :=
                 Some (h\<lparr>MerkelRoot := MerkelRootOf env (TransactionSlice b), Nonce := 0,
                         Timestamp := word_of_int now\<rparr>)\<rparr>\<rparr>) \<and>
           hashed m' = hashed m @
             (if TransactionSlice b = [] then []
              else [b\<lparr>BlockHeader := Some (h\<lparr>MerkelRoot := MerkelRootOf env (TransactionSlice b),
                      Nonce := 0, Timestamp := word_of_int now\<rparr>)\<rparr>]) \<and>
           miner_step env (Interrupt b now) (m\<lparr>block := old, sleepTime := s\<rparr>) = Some m'"
proof -
  let ?r = "b\<lparr>BlockHeader := Some (h\<lparr>MerkelRoot := MerkelRootOf env (TransactionSlice b), Nonce := 0,
                         Timestamp := word_of_int now\<rparr>)\<rparr>"
  have step: "miner_step env (Interrupt b now) m = search_pass env (m\<lparr>block := ?r\<rparr>)"
    by (simp add: reseed_Some [OF assms])
  have "BlockHeader (block (m\<lparr>block := ?r\<rparr>)) \<noteq> None" by simp
  from search_pass_total [OF this] obtain m' where m': "search_pass env (m\<lparr>block := ?r\<rparr>) = Some m'"
    by blast
  from search_pass_hashed [OF m']
  have h: "hashed m' = hashed m @ (if TransactionSlice b = [] then [] else [?r])"
    by simp
  have "miner_step env (Interrupt b now) (m\<lparr>block := old, sleepTime := s\<rparr>)
        = miner_step env (Interrupt b now) m"
    by (rule miner_step_Interrupt_ignores)
  then show ?thesis using step m' h by simp
qed

text \<open>The theorem at the seed \<open>exPending\<close>, received at time 1700000000.\<close>

theorem miner_step_reseeds_witness:
  "BlockHeader exPending = Some exPendingHeader \<and>
   (\<exists>m'. miner_step exCollaborators (Interrupt exPending 1700000000) exMiner = Some m' \<and>
      hashed m' =
        [exPending\<lparr>BlockHeader := Some (exPendingHeader\<lparr>MerkelRoot := Some [4], Nonce := 0,
                      Timestamp := 1700000000\<rparr>)\<rparr>] \<and>
      miner_step exCollaborators (Interrupt exPending 1700000000)
        (exMiner\<lparr>block := exOrphan, sleepTime := Nanosecond\<rparr>) = Some m')"
proof -
  have h: "BlockHeader exPending = Some exPendingHeader"
    by (simp add: exPending_def exPendingHeader_def)
  have t: "TransactionSlice exPending \<noteq> []" "MerkelRootOf exCollaborators (TransactionSlice exPending) = Some [4]"
    by (simp_all add: exPending_def exCollaborators_def sig_bytes_def exTx_def)
  have e: "hashed exMiner = []" by (simp add: exMiner_def)
  from miner_step_reseeds [where env = exCollaborators and now = 1700000000 and m = exMiner
      and old = exOrphan and s = Nanosecond, OF h]
  obtain m' where "miner_step exCollaborators (Interrupt exPending 1700000000) exMiner = Some m'"
    "hashed m' = hashed exMiner @
             (if TransactionSlice exPending = [] then []
              else [exPending\<lparr>BlockHeader := Some (exPendingHeader\<lparr>MerkelRoot := MerkelRootOf exCollaborators (TransactionSlice exPending),
                      Nonce := 0, Timestamp := word_of_int 1700000000\<rparr>)\<rparr>])"
    "miner_step exCollaborators (Interrupt exPending 1700000000)
        (exMiner\<lparr>block := exOrphan, sleepTime := Nanosecond\<rparr>) = Some m'"
    by blast
  with h t e show ?thesis by simp
qed

lemma miner_step_total:
  "seed_has_header ev \<Longrightarrow> BlockHeader (block m) \<noteq> None \<Longrightarrow>
   \<exists>m'. miner_step env ev m = Some m' \<and> BlockHeader (block m') \<noteq> None"
proof (cases ev)
  case (Interrupt b now)
  assume "seed_has_header ev"
  with Interrupt obtain h where h: "BlockHeader b = Some h" by auto
  show ?thesis
    using search_pass_total [of "m\<lparr>block := b\<lparr>BlockHeader :=
        Some (h\<lparr>MerkelRoot := MerkelRootOf env (TransactionSlice b),
                Nonce := 0, Timestamp := word_of_int now\<rparr>)\<rparr>\<rparr>" env]
    by (simp add: Interrupt reseed_Some [OF h])
next
  case TimeAfter
  assume "BlockHeader (block m) \<noteq> None"
  from search_pass_total [OF this] TimeAfter show ?thesis by simp
qed

lemma miner_step_bq:
  "miner_step env ev m = Some m' \<Longrightarrow>
   \<exists>new. bq m' = bq m @ new \<and> (\<forall>x\<in>set new. TransactionSlice x \<noteq> [])"
proof (cases ev)
  case (Interrupt b now)
  assume s: "miner_step env ev m = Some m'"
  with Interrupt obtain m1 where
    m1: "reseed env now (m\<lparr>block := b\<rparr>) = Some m1" "search_pass env m1 = Some m'"
    by (auto split: option.splits)
  from m1(1) have "bq m1 = bq m" by (auto simp: reseed_def split: option.splits)
  with search_pass_bq [OF m1(2)] show ?thesis by simp
next
  case TimeAfter
  assume "miner_step env ev m = Some m'"
  with TimeAfter search_pass_bq [of env m m'] show ?thesis by simp
qed

lemma miner_run_bq:
  "list_all seed_has_header evs \<Longrightarrow> BlockHeader (block m) \<noteq> None \<Longrightarrow>
   \<exists>m' new. miner_run env evs m = Some m' \<and> bq m' = bq m @ new \<and>
     (\<forall>x\<in>set new. TransactionSlice x \<noteq> [])"
proof (induction evs arbitrary: m)
  case Nil
  show ?case by simp
next
  case (Cons ev evs)
  from Cons.prems have ev: "seed_has_header ev"
    and evs: "list_all seed_has_header evs" by simp_all
  from miner_step_total [OF ev Cons.prems(2)] obtain m1 where
    m1: "miner_step env ev m = Some m1" "BlockHeader (block m1) \<noteq> None" by blast
  from miner_step_bq [OF m1(1)] obtain n1 where
    n1: "bq m1 = bq m @ n1" "\<forall>x\<in>set n1. TransactionSlice x \<noteq> []" by blast
  from Cons.IH [OF evs m1(2)] obtain m' n2 where
    n2: "miner_run env evs m1 = Some m'" "bq m' = bq m1 @ n2" "\<forall>x\<in>set n2. TransactionSlice x \<noteq> []"
    by blast
  have "miner_run env (ev # evs) m = Some m'" using m1 n2 by simp
  moreover have "bq m' = bq m @ (n1 @ n2)" using n1 n2 by simp
  moreover have "\<forall>x\<in>set (n1 @ n2). TransactionSlice x \<noteq> []" using n1 n2 by auto
  ultimately show ?case by blast
qed

lemma idle_run:
  "TransactionSlice (block m) = [] \<Longrightarrow>
   \<exists>m'. miner_run env (replicate n TimeAfter) m = Some m' \<and> bq m' = bq m \<and> hashed m' = hashed m
       \<and> block m' = block m"
proof (induction n arbitrary: m)
  case 0 show ?case by simp
next
  case (Suc n)
  let ?m1 = "m\<lparr>sleepTime := Hour * 24\<rparr>"
  have "TransactionSlice (block ?m1) = []" using Suc.prems by simp
  from Suc.IH [OF this] obtain m' where
    "miner_run env (replicate n TimeAfter) ?m1 = Some m'" "bq m' = bq m" "hashed m' = hashed m"
    "block m' = block m"
    by auto
  then show ?case using search_pass_empty [OF Suc.prems, of env] by simp
qed

lemma empty_seed_idle:
  assumes "BlockHeader b = Some h" "TransactionSlice b = []"
  shows "\<exists>m'. miner_run env (Interrupt b now # replicate n TimeAfter) m = Some m' \<and>
           bq m' = bq m \<and> hashed m' = hashed m"
proof -
  let ?r = "b\<lparr>BlockHeader := Some (h\<lparr>MerkelRoot := MerkelRootOf env (TransactionSlice b), Nonce := 0,
                         Timestamp := word_of_int now\<rparr>)\<rparr>"
  let ?m1 = "m\<lparr>block := ?r, sleepTime := Hour * 24\<rparr>"
  have e: "TransactionSlice (block (m\<lparr>block := ?r\<rparr>)) = []" using assms by simp
  have step: "miner_step env (Interrupt b now) m = Some ?m1"
    using search_pass_empty [OF e, of env] by (simp add: reseed_Some [OF assms(1)])
  have "TransactionSlice (block ?m1) = []" using assms by simp
  from idle_run [OF this, of env n] obtain m' where
    m': "miner_run env (replicate n TimeAfter) ?m1 = Some m'" "bq m' = bq ?m1" "hashed m' = hashed ?m1"
    by blast
  have "miner_run env (Interrupt b now # replicate n TimeAfter) m = Some m'"
    by (simp only: miner_run.simps step option.case m')
  with m' show ?thesis by simp
qed

text \<open>
  Claim C6. The goroutine, from its first seed \<open>b\<close> through any events, sends on the
  result queue only blocks whose transaction set is not empty. After a seed with zero
  transactions, through any number of timer expiries, no hash is evaluated and nothing
  is sent: the state of both traces is that before the seed.
\<close>

theorem miner_never_seals_empty_block:
  "(BlockHeader b \<noteq> None \<and> list_all seed_has_header evs \<longrightarrow>
      (\<exists>m'. GenerateBlocks env b now evs = Some m' \<and>
         (\<forall>x\<in>set (bq m'). TransactionSlice x \<noteq> []))) \<and>
   (BlockHeader b \<noteq> None \<and> TransactionSlice b = [] \<longrightarrow>
      (\<exists>m'. miner_run env (Interrupt b now # replicate n TimeAfter) m = Some m' \<and>
         bq m' = bq m \<and> hashed m' = hashed m))"
proof (intro conjI impI)
  assume a: "BlockHeader b \<noteq> None \<and> list_all seed_has_header evs"
  let ?m0 = "\<lparr>block = b, sleepTime = Nanosecond, bq = [], hashed = []\<rparr>"
  from a have "list_all seed_has_header (Interrupt b now # evs)" "BlockHeader (block ?m0) \<noteq> None"
    by simp_all
  from miner_run_bq [OF this, of env] show
    "\<exists>m'. GenerateBlocks env b now evs = Some m' \<and> (\<forall>x\<in>set (bq m'). TransactionSlice x \<noteq> [])"
    unfolding GenerateBlocks_def by auto
next
  assume "BlockHeader b \<noteq> None \<and> TransactionSlice b = []"
  then obtain h where "BlockHeader b = Some h" "TransactionSlice b = []" by auto
  from empty_seed_idle [OF this]
  show "\<exists>m'. miner_run env (Interrupt b now # replicate n TimeAfter) m = Some m' \<and>
         bq m' = bq m \<and> hashed m' = hashed m" .
qed

text \<open>The theorem at an empty seed followed by a seed with one transaction.\<close>

theorem miner_never_seals_empty_block_witness:
  "BlockHeader exEmptySeed \<noteq> None \<and> TransactionSlice exEmptySeed = [] \<and>
   list_all seed_has_header [TimeAfter, Interrupt exPending 7, TimeAfter] \<and>
   (\<exists>m'. GenerateBlocks exCollaborators exEmptySeed 5 [TimeAfter, Interrupt exPending 7, TimeAfter] = Some m' \<and>
      (\<forall>x\<in>set (bq m'). TransactionSlice x \<noteq> [])) \<and>
   (\<exists>m'. miner_run exCollaborators (Interrupt exEmptySeed 5 # replicate 3 TimeAfter) exMiner = Some m' \<and>
      bq m' = [] \<and> hashed m' = [])"
proof -
  have h: "BlockHeader exEmptySeed \<noteq> None" "TransactionSlice exEmptySeed = []"
    by (simp_all add: exEmptySeed_def)
  have l: "list_all seed_has_header [TimeAfter, Interrupt exPending 7, TimeAfter]"
    by (simp add: exPending_def)
  have e: "bq exMiner = []" "hashed exMiner = []" by (simp_all add: exMiner_def)
  from miner_never_seals_empty_block
    [where b = exEmptySeed and evs = "[TimeAfter, Interrupt exPending 7, TimeAfter]"
      and env = exCollaborators and now = 5 and n = 3 and m = exMiner] h l e
  show ?thesis by simp
qed

text \<open>
  A run of the example: an empty seed and a timer expiry produce nothing; the seed
  \<open>exPending\<close> meets the difficulty at nonce 0 and is sealed and sent, and sent once more
  when the timer of the idle wait expires.
\<close>

lemma GenerateBlocks_example_run:
  "map_option bq (GenerateBlocks exCollaborators exEmptySeed 5 [TimeAfter, Interrupt exPending 7, TimeAfter])
   = Some [exPending\<lparr>BlockHeader := Some (exPendingHeader\<lparr>MerkelRoot := Some [4], Timestamp := 7\<rparr>), BlockSignature := Some [83]\<rparr>,
           exPending\<lparr>BlockHeader := Some (exPendingHeader\<lparr>MerkelRoot := Some [4], Timestamp := 7\<rparr>), BlockSignature := Some [83]\<rparr>]"
  by (simp add: GenerateBlocks_def reseed_def search_pass_def Let_def exEmptySeed_def exPending_def
      exPendingHeader_def exCollaborators_def exHash_def GenerateMerkelRoot_def sig_bytes_def exTx_def)


section \<open>Properties of the replication transport\<close>



lemma getConn_traces:
  "getConn x addr ct = (r, ct1) \<Longrightarrow>
   requests ct1 = requests ct \<and> bch ct1 = bch ct \<and> closed ct1 = closed ct \<and> errlog ct1 = errlog ct"
  by (auto simp: getConn_def split: option.splits list.splits)

lemma returnConn_traces:
  "requests (returnConn c ct) = requests ct \<and> bch (returnConn c ct) = bch ct \<and>
   closed (returnConn c ct) = closed ct \<and> errlog (returnConn c ct) = errlog ct"
  by (simp add: returnConn_def Let_def split: option.splits)

lemma returnConn_outbound:
  "outbound (returnConn c ct) =
     (outbound ct)(RemoteAddr c \<mapsto> (case outbound ct (RemoteAddr c) of None \<Rightarrow> [] | Some p \<Rightarrow> p) @ [c])"
  by (simp add: returnConn_def Let_def split: option.splits)

lemma doRequest_requests:
  "doRequest env host typ resp ct = (e, r, ct') \<Longrightarrow>
   requests ct' = requests ct @ [(typ, host)] \<and> bch ct' = bch ct"
  unfolding doRequest_def Let_def
  by (auto simp: Close_def returnConn_traces split: prod.splits sum.splits option.splits
      dest!: getConn_traces)

lemma broadcast_hosts_requests:
  "requests (broadcast_hosts env typ hosts ct) =
     requests ct @ map (Pair typ) (filter (\<lambda>h. h \<noteq> Hostname env) hosts)"
proof (induction hosts arbitrary: ct)
  case Nil show ?case by simp
next
  case (Cons host hosts)
  show ?case
  proof (cases "host = Hostname env")
    case True
    with Cons.IH [of ct] show ?thesis by simp
  next
    case False
    obtain e r ct' where d: "doRequest env host typ None ct = (e, r, ct')"
      by (cases "doRequest env host typ None ct") auto
    from doRequest_requests [OF d] have rq: "requests ct' = requests ct @ [(typ, host)]" by simp
    show ?thesis
    proof (cases e)
      case None
      with d False Cons.IH [of ct'] rq show ?thesis by simp
    next
      case (Some err)
      with d False Cons.IH [of "ct'\<lparr>errlog := errlog ct' @ [err]\<rparr>"] rq show ?thesis by simp
    qed
  qed
qed

lemma hosts_map_keys:
  "distinct (map fst m) \<Longrightarrow>
   distinct (map fst (foldl (\<lambda>m v. AList.update (Host v) True m) m vl)) \<and>
   set (map fst (foldl (\<lambda>m v. AList.update (Host v) True m) m vl)) = set (map fst m) \<union> Host ` set vl"
proof (induction vl arbitrary: m)
  case Nil then show ?case by simp
next
  case (Cons v vl)
  have "distinct (map fst (AList.update (Host v) True m))" using Cons.prems by (rule distinct_update)
  from Cons.IH [OF this] show ?case by (auto simp: dom_update)
qed

lemma UniqueHosts_once:
  assumes "\<forall>ks. mset (order ks) = mset ks"
  shows "distinct (UniqueHosts order vl) \<and> set (UniqueHosts order vl) = Host ` set vl"
proof -
  let ?ks = "map fst (foldl (\<lambda>m v. AList.update (Host v) True m) [] vl)"
  from hosts_map_keys [of "[]" vl] have k: "distinct ?ks" "set ?ks = Host ` set vl" by simp_all
  from assms have m: "mset (order ?ks) = mset ?ks" by blast
  from m k(1) have "distinct (order ?ks)" by (metis mset_eq_imp_distinct_iff)
  moreover from m have "set (order ?ks) = set ?ks" by (rule mset_eq_setD)
  ultimately show ?thesis using k(2) by (simp add: UniqueHosts_def Let_def)
qed

text \<open>
  Claim C3. When the lookup of a broadcast returns the replica set \<open>vns\<close>, the outbound
  calls the transport makes are, in some order, exactly one per host that occurs in
  \<open>vns\<close> and is not the local host: several virtual nodes on one host get one request,
  and the local host gets none. The range over the map of hosts visits every key once, in
  an order of the runtime's choosing.
\<close>

theorem broadcast_one_request_per_host:
  assumes "\<forall>ks. mset (rangeOrder env ks) = mset ks"
    and "Lookup env (NumSuccessors env) hsh = Inr vns"
  shows "\<exists>hs. requests (snd (broadcast env typ hsh ct)) = requests ct @ map (Pair typ) hs \<and>
           distinct hs \<and> set hs = Host ` set vns - {Hostname env}"
proof -
  let ?hs = "filter (\<lambda>h. h \<noteq> Hostname env) (UniqueHosts (rangeOrder env) vns)"
  from UniqueHosts_once [OF assms(1), of vns] have "distinct ?hs" "set ?hs = Host ` set vns - {Hostname env}"
    by auto
  moreover have "requests (snd (broadcast env typ hsh ct)) = requests ct @ map (Pair typ) ?hs"
    by (simp add: broadcast_def assms(2) broadcast_hosts_requests)
  ultimately show ?thesis by blast
qed

lemma request_hosts_bch:
  "\<exists>new. bch (request_hosts env hosts ct) = bch ct @ new \<and> (\<forall>blk\<in>set new. BlockHeader blk \<noteq> None)"
proof (induction hosts arbitrary: ct)
  case Nil show ?case by simp
next
  case (Cons host hosts)
  show ?case
  proof (cases "host = Hostname env")
    case True
    with Cons.IH [of ct] show ?thesis by simp
  next
    case False
    obtain e r ct' where d: "doRequest env host reqTypeBlock (Some zeroBlock) ct = (e, r, ct')"
      by (cases "doRequest env host reqTypeBlock (Some zeroBlock) ct") auto
    from doRequest_requests [OF d] have b: "bch ct' = bch ct" by simp
    consider (err) err where "e = Some err"
      | (nil) "e = None" "r = None"
      | (sentinel) blk where "e = None" "r = Some blk" "BlockHeader blk = None"
      | (genuine) blk where "e = None" "r = Some blk" "BlockHeader blk \<noteq> None"
      by (cases e; cases r) auto
    then show ?thesis
    proof cases
      case err
      with d False b Cons.IH [of "ct'\<lparr>errlog := errlog ct' @ [err]\<rparr>"] show ?thesis by simp
    next
      case nil
      with d False b Cons.IH [of ct'] show ?thesis by simp
    next
      case sentinel
      with d False b Cons.IH [of ct'] show ?thesis by simp
    next
      case genuine
      from Cons.IH [of "ct'\<lparr>bch := bch ct' @ [blk]\<rparr>"] obtain new where
        n: "bch (request_hosts env hosts (ct'\<lparr>bch := bch ct' @ [blk]\<rparr>)) = (bch ct' @ [blk]) @ new"
           "\<forall>x\<in>set new. BlockHeader x \<noteq> None" by auto
      have "bch (request_hosts env (host # hosts) ct) = bch ct @ (blk # new)"
        using genuine d False b n(1) by auto
      moreover have "\<forall>x\<in>set (blk # new). BlockHeader x \<noteq> None" using genuine n(2) by simp
      ultimately show ?thesis by blast
    qed
  qed
qed

text \<open>
  Claim C7. Every block that \<open>RequestBlocks\<close> sends on the engine's block channel has a
  header; the reply that stands for "not found", the block with no header, is never
  among them.
\<close>

theorem RequestBlocks_never_forwards_sentinel:
  "\<exists>new. bch (RequestBlocks env hashes ct) = bch ct @ new \<and>
          (\<forall>blk\<in>set new. BlockHeader blk \<noteq> None) \<and> zeroBlock \<notin> set new"
proof -
  have "\<exists>new. bch (RequestBlocks env hashes ct) = bch ct @ new \<and> (\<forall>blk\<in>set new. BlockHeader blk \<noteq> None)"
  proof (induction hashes arbitrary: ct)
    case Nil show ?case by simp
  next
    case (Cons hsh hashes)
    show ?case
    proof (cases "Lookup env (NumSuccessors env) hsh")
      case (Inl err)
      with Cons.IH [of "ct\<lparr>errlog := errlog ct @ [err]\<rparr>"] show ?thesis by simp
    next
      case (Inr vns)
      let ?ct1 = "request_hosts env (UniqueHosts (rangeOrder env) vns) ct"
      from request_hosts_bch [of env "UniqueHosts (rangeOrder env) vns" ct] obtain n1 where
        n1: "bch ?ct1 = bch ct @ n1" "\<forall>x\<in>set n1. BlockHeader x \<noteq> None" by blast
      from Cons.IH [of ?ct1] obtain n2 where
        n2: "bch (RequestBlocks env hashes ?ct1) = bch ?ct1 @ n2" "\<forall>x\<in>set n2. BlockHeader x \<noteq> None" by blast
      have "bch (RequestBlocks env (hsh # hashes) ct) = bch ct @ (n1 @ n2)" using Inr n1 n2 by simp
      moreover have "\<forall>x\<in>set (n1 @ n2). BlockHeader x \<noteq> None" using n1 n2 by auto
      ultimately show ?thesis by blast
    qed
  qed
  then obtain new where n: "bch (RequestBlocks env hashes ct) = bch ct @ new" "\<forall>blk\<in>set new. BlockHeader blk \<noteq> None"
    by blast
  then have "zeroBlock \<notin> set new" by (auto simp: zeroBlock_def)
  with n show ?thesis by blast
qed


lemma UniqueHosts_exVnodes:
  "UniqueHosts (\<lambda>ks. ks) exVnodes = [''A:9000'', ''B:9000'', ''local:9000'']"
  by (simp add: UniqueHosts_def exVnodes_def)

text \<open>The theorem at two virtual nodes on host A, one on host B and one on the local host.\<close>

theorem broadcast_one_request_per_host_witness:
  "(\<forall>ks. mset (rangeOrder exSurroundings ks) = mset ks) \<and>
   Lookup exSurroundings (NumSuccessors exSurroundings) (Some [7]) = Inr exVnodes \<and>
   (\<exists>hs. requests (snd (broadcast exSurroundings reqTypeBlockBroadcast (Some [7]) exTransport))
           = requests exTransport @ map (Pair reqTypeBlockBroadcast) hs \<and>
         distinct hs \<and> set hs = {''A:9000'', ''B:9000''})"
proof -
  have r: "\<forall>ks. mset (rangeOrder exSurroundings ks) = mset ks"
    by (simp add: exSurroundings_def)
  have l: "Lookup exSurroundings (NumSuccessors exSurroundings) (Some [7]) = Inr exVnodes"
    by (simp add: exSurroundings_def)
  have h: "Host ` set exVnodes - {Hostname exSurroundings} = {''A:9000'', ''B:9000''}"
    by (auto simp: exVnodes_def exSurroundings_def)
  from broadcast_one_request_per_host [OF r l, of reqTypeBlockBroadcast exTransport] r l h
  show ?thesis by simp
qed

lemma broadcast_example:
  "requests (snd (broadcast exSurroundings reqTypeBlockBroadcast (Some [7]) exTransport))
     = [(reqTypeBlockBroadcast, ''A:9000''), (reqTypeBlockBroadcast, ''B:9000'')]"
proof -
  have "requests (snd (broadcast exSurroundings reqTypeBlockBroadcast (Some [7]) exTransport))
      = requests exTransport @ map (Pair reqTypeBlockBroadcast)
          (filter (\<lambda>h. h \<noteq> Hostname exSurroundings) (UniqueHosts (\<lambda>ks. ks) exVnodes))"
    by (simp add: broadcast_def exSurroundings_def broadcast_hosts_requests
        del: broadcast_hosts.simps)
  then show ?thesis
    by (simp add: UniqueHosts_exVnodes exSurroundings_def exTransport_def)
qed

lemma RequestBlocks_example:
  "bch (RequestBlocks exSurroundings [Some [7]] exTransport) = [exGenesis]"
  by (simp add: exSurroundings_def UniqueHosts_exVnodes doRequest_def Let_def getConn_def
      exTransport_def exExchange_def returnConn_def Close_def zeroBlock_def exGenesis_def)

text \<open>
  The theorem where host A answers with the empty block and host B with \<open>exGenesis\<close>:
  only the latter is forwarded.
\<close>

theorem RequestBlocks_never_forwards_sentinel_witness:
  "\<exists>new. bch (RequestBlocks exSurroundings [Some [7]] exTransport) = bch exTransport @ new \<and>
     (\<forall>blk\<in>set new. BlockHeader blk \<noteq> None) \<and> zeroBlock \<notin> set new \<and> new = [exGenesis]"
proof -
  from RequestBlocks_never_forwards_sentinel [of exSurroundings "[Some [7]]" exTransport]
  obtain new where n: "bch (RequestBlocks exSurroundings [Some [7]] exTransport) = bch exTransport @ new"
    "\<forall>blk\<in>set new. BlockHeader blk \<noteq> None" "zeroBlock \<notin> set new" by blast
  from n(1) have "new = [exGenesis]"
    unfolding RequestBlocks_example by (simp add: exTransport_def)
  with n show ?thesis by blast
qed



lemma doRequest_fate:
  assumes "x = exchanges env (length (requests ct))"
    and "getConn x host (ct\<lparr>requests := requests ct @ [(typ, host)]\<rparr>) = (Inr conn, ct1)"
    and "doRequest env host typ resp ct = (err, resp', ct')"
  shows "if encodeHeader x = None \<and> encodeRequest x = None \<and> (resp = None \<or> decodeError x = None)
         then err = None \<and> closed ct' = closed ct \<and>
              outbound ct' = (outbound ct1)(RemoteAddr conn \<mapsto>
                 (case outbound ct1 (RemoteAddr conn) of None \<Rightarrow> [] | Some p \<Rightarrow> p) @ [conn])
         else closed ct' = closed ct @ [conn] \<and> outbound ct' = outbound ct1"
  using assms(3) getConn_traces [OF assms(2)]
  unfolding doRequest_def Let_def assms(1) [symmetric] assms(2)
  by (auto simp: Close_def returnConn_traces returnConn_outbound split: option.splits if_splits)

lemma getBlockByType_fate:
  assumes "x = exchanges env (length (requests ct))"
    and "getConn x host (ct\<lparr>requests := requests ct @ [(typ, host)]\<rparr>) = (Inr conn, ct1)"
    and "getBlockByType env typ host ct = (blk, err, ct')"
  shows "if encodeHeader x = None \<and> decodeError x = None
         then err = None \<and> closed ct' = closed ct \<and>
              outbound ct' = (outbound ct1)(RemoteAddr conn \<mapsto>
                 (case outbound ct1 (RemoteAddr conn) of None \<Rightarrow> [] | Some p \<Rightarrow> p) @ [conn])
         else closed ct' = closed ct @ [conn] \<and> outbound ct' = outbound ct1"
  using assms(3) getConn_traces [OF assms(2)]
  unfolding getBlockByType_def Let_def assms(1) [symmetric] assms(2)
  by (auto simp: Close_def returnConn_traces returnConn_outbound split: option.splits if_splits)



lemma pool_soundD:
  "pool_sound ct \<Longrightarrow> outbound ct h = Some cs \<Longrightarrow>
   distinct cs \<and> (\<forall>c\<in>set cs. RemoteAddr c = h \<and> c \<notin> set (closed ct))"
  unfolding pool_sound_def by blast

lemma pool_soundI:
  "(\<And>h cs. outbound ct h = Some cs \<Longrightarrow>
      distinct cs \<and> (\<forall>c\<in>set cs. RemoteAddr c = h \<and> c \<notin> set (closed ct))) \<Longrightarrow> pool_sound ct"
  unfolding pool_sound_def by blast

lemma getConn_sound:
  assumes s: "pool_sound ct" and g: "getConn x host ct = (Inr conn, ct1)"
    and f: "\<And>c. dial x = Inr c \<Longrightarrow> c \<notin> pooled ct \<and> c \<notin> set (closed ct)"
  shows "pool_sound ct1 \<and> conn \<notin> pooled ct1 \<and> conn \<notin> set (closed ct1)"
proof (cases "outbound ct host")
  case None
  with g have "dial x = Inr conn" "ct1 = ct" by (simp_all add: getConn_def)
  with s f show ?thesis by simp
next
  case (Some l)
  show ?thesis
  proof (cases l)
    case Nil
    with Some g have "dial x = Inr conn" "ct1 = ct" by (simp_all add: getConn_def)
    with s f show ?thesis by simp
  next
    case (Cons c cs)
    with Some g have eq: "conn = c" "ct1 = ct\<lparr>outbound := (outbound ct)(host \<mapsto> cs)\<rparr>"
      by (simp_all add: getConn_def)
    from pool_soundD [OF s Some] Cons
    have c: "c \<notin> set cs" "distinct cs" "RemoteAddr c = host" "c \<notin> set (closed ct)"
      "\<forall>d\<in>set cs. RemoteAddr d = host \<and> d \<notin> set (closed ct)"
      by simp_all
    have s1: "pool_sound ct1"
    proof (rule pool_soundI)
      fix h ds assume a: "outbound ct1 h = Some ds"
      show "distinct ds \<and> (\<forall>c\<in>set ds. RemoteAddr c = h \<and> c \<notin> set (closed ct1))"
      proof (cases "h = host")
        case True
        with a eq have "ds = cs" by simp
        with c True eq show ?thesis by simp
      next
        case False
        with a eq have "outbound ct h = Some ds" by simp
        from pool_soundD [OF s this] eq show ?thesis by simp
      qed
    qed
    have "conn \<notin> pooled ct1"
    proof
      assume "conn \<in> pooled ct1"
      then obtain h ds where h: "outbound ct1 h = Some ds" "conn \<in> set ds"
        unfolding pooled_def by blast
      from pool_soundD [OF s1 h(1)] h(2) have "RemoteAddr conn = h" by blast
      with c(3) eq(1) have "h = host" by simp
      with h(1) eq(2) have "ds = cs" by simp
      with h(2) c(1) eq(1) show False by simp
    qed
    moreover from c eq have "conn \<notin> set (closed ct1)" by simp
    ultimately show ?thesis using s1 by simp
  qed
qed

lemma returnConn_sound:
  assumes s: "pool_sound ct" and np: "conn \<notin> pooled ct" and nc: "conn \<notin> set (closed ct)"
  shows "pool_sound (returnConn conn ct)"
proof (rule pool_soundI)
  fix h ds assume a: "outbound (returnConn conn ct) h = Some ds"
  let ?p = "case outbound ct (RemoteAddr conn) of None \<Rightarrow> [] | Some p \<Rightarrow> p"
  have cl: "closed (returnConn conn ct) = closed ct" by (simp add: returnConn_traces)
  have p: "distinct ?p \<and> (\<forall>c\<in>set ?p. RemoteAddr c = RemoteAddr conn \<and> c \<notin> set (closed ct)) \<and>
           conn \<notin> set ?p"
  proof (cases "outbound ct (RemoteAddr conn)")
    case None then show ?thesis by simp
  next
    case (Some q)
    from np Some have "conn \<notin> set q" unfolding pooled_def by blast
    with pool_soundD [OF s Some] Some show ?thesis by simp
  qed
  obtain q where q: "q = ?p" by simp
  from p have pq: "distinct q" "\<forall>c\<in>set q. RemoteAddr c = RemoteAddr conn \<and> c \<notin> set (closed ct)"
    "conn \<notin> set q"
    unfolding q by blast+
  show "distinct ds \<and> (\<forall>c\<in>set ds. RemoteAddr c = h \<and> c \<notin> set (closed (returnConn conn ct)))"
  proof (cases "h = RemoteAddr conn")
    case True
    with a have ds: "ds = q @ [conn]" by (simp add: returnConn_outbound q)
    have "distinct (q @ [conn])" using pq by simp
    moreover have "\<forall>c\<in>set (q @ [conn]). RemoteAddr c = RemoteAddr conn \<and> c \<notin> set (closed ct)"
      using pq(2) nc by simp
    ultimately show ?thesis unfolding cl ds True by blast
  next
    case False
    with a have "outbound ct h = Some ds" by (simp add: returnConn_outbound)
    from pool_soundD [OF s this] show ?thesis unfolding cl .
  qed
qed

lemma Close_sound:
  assumes s: "pool_sound ct" and np: "conn \<notin> pooled ct"
  shows "pool_sound (Close conn ct)"
proof (rule pool_soundI)
  fix h ds assume "outbound (Close conn ct) h = Some ds"
  then have a: "outbound ct h = Some ds" by (simp add: Close_def)
  with np have "conn \<notin> set ds" unfolding pooled_def by blast
  have cl: "set (closed (Close conn ct)) = insert conn (set (closed ct))" by (simp add: Close_def)
  from pool_soundD [OF s a] have "distinct ds" "\<forall>c\<in>set ds. RemoteAddr c = h \<and> c \<notin> set (closed ct)"
    by blast+
  with \<open>conn \<notin> set ds\<close>
  show "distinct ds \<and> (\<forall>c\<in>set ds. RemoteAddr c = h \<and> c \<notin> set (closed (Close conn ct)))"
    unfolding cl by blast
qed

lemma doRequest_pool_sound:
  assumes s: "pool_sound ct"
    and f: "\<And>c. dial (exchanges env (length (requests ct))) = Inr c \<Longrightarrow>
              c \<notin> pooled ct \<and> c \<notin> set (closed ct)"
  shows "pool_sound (snd (snd (doRequest env host typ resp ct)))"
proof -
  let ?x = "exchanges env (length (requests ct))"
  let ?ct = "ct\<lparr>requests := requests ct @ [(typ, host)]\<rparr>"
  have s0: "pool_sound ?ct" using s by (simp add: pool_sound_def)
  have f0: "\<And>c. dial ?x = Inr c \<Longrightarrow> c \<notin> pooled ?ct \<and> c \<notin> set (closed ?ct)"
    using f by (simp add: pooled_def)
  obtain r ct1 where g: "getConn ?x host ?ct = (r, ct1)" by (cases "getConn ?x host ?ct") auto
  show ?thesis
  proof (cases r)
    case (Inl e)
    with g have "ct1 = ?ct" by (auto simp: getConn_def split: option.splits list.splits)
    with g Inl s0 show ?thesis by (simp add: doRequest_def Let_def)
  next
    case (Inr conn)
    from getConn_sound [OF s0 g [unfolded Inr] f0]
    have s1: "pool_sound ct1" "conn \<notin> pooled ct1" "conn \<notin> set (closed ct1)" by simp_all
    obtain e r' ct' where d: "doRequest env host typ resp ct = (e, r', ct')"
      by (cases "doRequest env host typ resp ct") auto
    from d g Inr have "ct' = returnConn conn ct1 \<or> ct' = Close conn ct1"
      unfolding doRequest_def Let_def by (auto split: option.splits prod.splits if_splits)
    with returnConn_sound [OF s1] Close_sound [OF s1(1,2)] d show ?thesis by auto
  qed
qed

lemma getBlockByType_pool_sound:
  assumes s: "pool_sound ct"
    and f: "\<And>c. dial (exchanges env (length (requests ct))) = Inr c \<Longrightarrow>
              c \<notin> pooled ct \<and> c \<notin> set (closed ct)"
  shows "pool_sound (snd (snd (getBlockByType env typ host ct)))"
proof -
  let ?x = "exchanges env (length (requests ct))"
  let ?ct = "ct\<lparr>requests := requests ct @ [(typ, host)]\<rparr>"
  have s0: "pool_sound ?ct" using s by (simp add: pool_sound_def)
  have f0: "\<And>c. dial ?x = Inr c \<Longrightarrow> c \<notin> pooled ?ct \<and> c \<notin> set (closed ?ct)"
    using f by (simp add: pooled_def)
  obtain r ct1 where g: "getConn ?x host ?ct = (r, ct1)" by (cases "getConn ?x host ?ct") auto
  show ?thesis
  proof (cases r)
    case (Inl e)
    with g have "ct1 = ?ct" by (auto simp: getConn_def split: option.splits list.splits)
    with g Inl s0 show ?thesis by (simp add: getBlockByType_def Let_def)
  next
    case (Inr conn)
    from getConn_sound [OF s0 g [unfolded Inr] f0]
    have s1: "pool_sound ct1" "conn \<notin> pooled ct1" "conn \<notin> set (closed ct1)" by simp_all
    obtain b e ct' where d: "getBlockByType env typ host ct = (b, e, ct')"
      by (cases "getBlockByType env typ host ct") auto
    from d g Inr have "ct' = returnConn conn ct1 \<or> ct' = Close conn ct1"
      unfolding getBlockByType_def Let_def by (auto split: option.splits prod.splits if_splits)
    with returnConn_sound [OF s1] Close_sound [OF s1(1,2)] d show ?thesis by auto
  qed
qed

text \<open>
  Claim C4. Let an outbound request (\<open>doRequest\<close> or \<open>getBlockByType\<close>) have obtained the
  connection \<open>conn\<close>, leaving the pool as in \<open>ct1\<close>. If every encode and decode of the
  request succeeds, nothing is closed and \<open>conn\<close> is appended to the idle list keyed by
  its remote address; if one fails, \<open>conn\<close> is closed and the pool stays as in \<open>ct1\<close>,
  without \<open>conn\<close> put back. Hence a pool that holds no closed connection and no
  connection twice stays so, when a dial returns a connection that is new: a connection
  closed after an error is never handed out again.
\<close>

theorem connection_closed_on_error_pooled_on_success:
  assumes "getConn (exchanges env (length (requests ct))) host
             (ct\<lparr>requests := requests ct @ [(typ, host)]\<rparr>) = (Inr conn, ct1)"
  shows "(let x = exchanges env (length (requests ct));
              ct' = snd (snd (doRequest env host typ resp ct))
          in if encodeHeader x = None \<and> encodeRequest x = None \<and>
                (resp = None \<or> decodeError x = None)
             then closed ct' = closed ct \<and>
                  outbound ct' = (outbound ct1)(RemoteAddr conn \<mapsto>
                    (case outbound ct1 (RemoteAddr conn) of None \<Rightarrow> [] | Some p \<Rightarrow> p) @ [conn])
             else closed ct' = closed ct @ [conn] \<and> outbound ct' = outbound ct1) \<and>
         (let x = exchanges env (length (requests ct));
              ct' = snd (snd (getBlockByType env typ host ct))
          in if encodeHeader x = None \<and> decodeError x = None
             then closed ct' = closed ct \<and>
                  outbound ct' = (outbound ct1)(RemoteAddr conn \<mapsto>
                    (case outbound ct1 (RemoteAddr conn) of None \<Rightarrow> [] | Some p \<Rightarrow> p) @ [conn])
             else closed ct' = closed ct @ [conn] \<and> outbound ct' = outbound ct1) \<and>
         (pool_sound ct \<and>
          (\<forall>c. dial (exchanges env (length (requests ct))) = Inr c \<longrightarrow>
               c \<notin> pooled ct \<and> c \<notin> set (closed ct)) \<longrightarrow>
            pool_sound (snd (snd (doRequest env host typ resp ct))) \<and>
            pool_sound (snd (snd (getBlockByType env typ host ct))))"
proof -
  obtain e r ct' where d: "doRequest env host typ resp ct = (e, r, ct')"
    by (cases "doRequest env host typ resp ct") auto
  obtain b e2 ct2 where g: "getBlockByType env typ host ct = (b, e2, ct2)"
    by (cases "getBlockByType env typ host ct") auto
  from doRequest_fate [OF refl assms d]
  have f1: "let x = exchanges env (length (requests ct));
              ct' = snd (snd (doRequest env host typ resp ct))
          in if encodeHeader x = None \<and> encodeRequest x = None \<and>
                (resp = None \<or> decodeError x = None)
             then closed ct' = closed ct \<and>
                  outbound ct' = (outbound ct1)(RemoteAddr conn \<mapsto>
                    (case outbound ct1 (RemoteAddr conn) of None \<Rightarrow> [] | Some p \<Rightarrow> p) @ [conn])
             else closed ct' = closed ct @ [conn] \<and> outbound ct' = outbound ct1"
    unfolding Let_def d snd_conv by (simp split: if_splits)
  from getBlockByType_fate [OF refl assms g]
  have f2: "let x = exchanges env (length (requests ct));
              ct' = snd (snd (getBlockByType env typ host ct))
          in if encodeHeader x = None \<and> decodeError x = None
             then closed ct' = closed ct \<and>
                  outbound ct' = (outbound ct1)(RemoteAddr conn \<mapsto>
                    (case outbound ct1 (RemoteAddr conn) of None \<Rightarrow> [] | Some p \<Rightarrow> p) @ [conn])
             else closed ct' = closed ct @ [conn] \<and> outbound ct' = outbound ct1"
    unfolding Let_def g snd_conv by (simp split: if_splits)
  have f3: "pool_sound ct \<and>
          (\<forall>c. dial (exchanges env (length (requests ct))) = Inr c \<longrightarrow>
               c \<notin> pooled ct \<and> c \<notin> set (closed ct)) \<longrightarrow>
            pool_sound (snd (snd (doRequest env host typ resp ct))) \<and>
            pool_sound (snd (snd (getBlockByType env typ host ct)))"
    using doRequest_pool_sound [of ct env host "typ" resp]
      getBlockByType_pool_sound [of ct env "typ" host]
    by blast
  show ?thesis by (intro conjI) (rule f1, rule f2, rule f3)
qed

text \<open>
  The theorem at a request that takes the idle connection to host A and fails while its
  header is encoded.
\<close>

theorem connection_closed_on_error_pooled_on_success_witness:
  "getConn (exchanges exSurroundings (length (requests exTransport2))) ''A:9000''
     (exTransport2\<lparr>requests := requests exTransport2 @ [(reqTypeBlock, ''A:9000'')]\<rparr>)
     = (Inr \<lparr>connId = 0, RemoteAddr = ''A:9000''\<rparr>,
        exTransport2\<lparr>requests := requests exTransport2 @ [(reqTypeBlock, ''A:9000'')],
                      outbound := [''A:9000'' \<mapsto> []]\<rparr>) \<and>
   pool_sound exTransport2 \<and>
   dial (exchanges exSurroundings (length (requests exTransport2)))
     = Inr \<lparr>connId = 2, RemoteAddr = ''A:9000''\<rparr> \<and>
   \<lparr>connId = 2, RemoteAddr = ''A:9000''\<rparr> \<notin> pooled exTransport2 \<and>
   \<lparr>connId = 2, RemoteAddr = ''A:9000''\<rparr> \<notin> set (closed exTransport2) \<and>
   closed (snd (snd (doRequest exSurroundings ''A:9000'' reqTypeBlock (Some zeroBlock) exTransport2)))
     = [\<lparr>connId = 0, RemoteAddr = ''A:9000''\<rparr>] \<and>
   outbound (snd (snd (doRequest exSurroundings ''A:9000'' reqTypeBlock (Some zeroBlock) exTransport2)))
     = [''A:9000'' \<mapsto> []] \<and>
   pool_sound (snd (snd (doRequest exSurroundings ''A:9000'' reqTypeBlock (Some zeroBlock) exTransport2)))"
proof -
  let ?c = "\<lparr>connId = 0, RemoteAddr = ''A:9000''\<rparr>"
  have x2: "exchanges exSurroundings (length (requests exTransport2)) = exExchange 2"
    by (simp add: exSurroundings_def exTransport2_def numeral_2_eq_2)
  have g2: "getConn (exchanges exSurroundings (length (requests exTransport2))) ''A:9000''
     (exTransport2\<lparr>requests := requests exTransport2 @ [(reqTypeBlock, ''A:9000'')]\<rparr>)
     = (Inr ?c, exTransport2\<lparr>requests := requests exTransport2 @ [(reqTypeBlock, ''A:9000'')],
                      outbound := [''A:9000'' \<mapsto> []]\<rparr>)"
    unfolding x2 by (simp add: getConn_def exTransport2_def)
  have e: "encodeHeader (exExchange 2) \<noteq> None"
    "dial (exExchange 2) = Inr \<lparr>connId = 2, RemoteAddr = ''A:9000''\<rparr>"
    by (simp_all add: exExchange_def)
  have t: "closed exTransport2 = []" "outbound exTransport2 = [''A:9000'' \<mapsto> [?c]]"
    by (simp_all add: exTransport2_def)
  have s: "pool_sound exTransport2"
    unfolding pool_sound_def t by (auto split: if_splits)
  have p: "pooled exTransport2 = {?c}"
    unfolding pooled_def t by (auto split: if_splits)
  have f: "\<forall>c. dial (exchanges exSurroundings (length (requests exTransport2))) = Inr c \<longrightarrow>
        c \<notin> pooled exTransport2 \<and> c \<notin> set (closed exTransport2)"
    unfolding x2 p t e by simp
  note inst = connection_closed_on_error_pooled_on_success [OF g2, of "Some zeroBlock"]
  from inst [THEN conjunct1]
  have b: "closed (snd (snd (doRequest exSurroundings ''A:9000'' reqTypeBlock (Some zeroBlock) exTransport2))) = [?c] \<and>
      outbound (snd (snd (doRequest exSurroundings ''A:9000'' reqTypeBlock (Some zeroBlock) exTransport2)))
        = [''A:9000'' \<mapsto> []]"
    unfolding Let_def x2 by (simp add: e t)
  from inst [THEN conjunct2, THEN conjunct2] s f
  have "pool_sound (snd (snd (doRequest exSurroundings ''A:9000'' reqTypeBlock (Some zeroBlock) exTransport2)))"
    by blast
  moreover have "dial (exchanges exSurroundings (length (requests exTransport2)))
      = Inr \<lparr>connId = 2, RemoteAddr = ''A:9000''\<rparr>"
    "\<lparr>connId = 2, RemoteAddr = ''A:9000''\<rparr> \<notin> pooled exTransport2"
    "\<lparr>connId = 2, RemoteAddr = ''A:9000''\<rparr> \<notin> set (closed exTransport2)"
    unfolding x2 p t e by simp_all
  ultimately show ?thesis using g2 s b by blast
qed



end
